theory Spec2Isabelle
  imports Main "HOL-Library.Word"
begin

section \<open>AWS credential variants (internal/aws/aws.go)\<close>

text \<open>
  A Go \<^verbatim>\<open>string\<close> is a sequence of bytes, and so is \<^typ>\<open>string\<close> here: a
  \<^typ>\<open>char\<close> is one byte.  Go's \<^verbatim>\<open>int\<close> is taken at 64 bits.
\<close>

subsection \<open>Timestamps\<close>

text \<open>
  \<^verbatim>\<open>time.Time\<close> is a type of Go's standard library: an instant together with a
  location.  The only thing the repository does with one is \<^verbatim>\<open>Format(time.RFC3339)\<close>,
  and formatting reads the value through the calendar date, the clock and the zone offset
  (seconds east of UTC) in effect at that instant in its location.  The record keeps these
  readings.
\<close>

record Time =
  year :: int
  month :: int
  day :: int
  hour :: int
  minute :: int
  second :: int
  nanosecond :: int
  zoneOffset :: int

subsection \<open>The four variants\<close>

record EnvVarCredential =
  AccessKeyID :: string
  SecretAccessKey :: string
  SessionToken :: string

record CredsFileCredential =
  AccessKeyID :: string
  SecretAccessKey :: string
  SessionToken :: string
  profile :: string

text \<open>\<^verbatim>\<open>Expiration *time.Time\<close>: the nil pointer is \<^term>\<open>None\<close>.\<close>

record ProcessCredential =
  AccessKeyID :: string
  SecretAccessKey :: string
  SessionToken :: string
  Expiration :: "Time option"
  Version :: "64 word"

datatype NoopCredential = NoopCredential

text \<open>
  The interface \<^verbatim>\<open>Credential\<close> is implemented by exactly these four types, so a value
  of the interface is one of four cases.
\<close>

datatype Credential =
    EnvVar EnvVarCredential
  | CredsFile CredsFileCredential
  | Process ProcessCredential
  | Noop NoopCredential

definition EnvVarCredential_IsCredential :: "EnvVarCredential \<Rightarrow> bool" where
  "EnvVarCredential_IsCredential e = True"

definition CredsFileCredential_IsCredential :: "CredsFileCredential \<Rightarrow> bool" where
  "CredsFileCredential_IsCredential c = True"

definition ProcessCredential_IsCredential :: "ProcessCredential \<Rightarrow> bool" where
  "ProcessCredential_IsCredential c = True"

definition NoopCredential_IsCredential :: "NoopCredential \<Rightarrow> bool" where
  "NoopCredential_IsCredential n = True"

text \<open>A call through the interface dispatches on the dynamic type.\<close>

fun IsCredential :: "Credential \<Rightarrow> bool" where
  "IsCredential (EnvVar e) = EnvVarCredential_IsCredential e"
| "IsCredential (CredsFile c) = CredsFileCredential_IsCredential c"
| "IsCredential (Process c) = ProcessCredential_IsCredential c"
| "IsCredential (Noop n) = NoopCredential_IsCredential n"

subsection \<open>The profile of a credentials-file credential\<close>

text \<open>
  \<^verbatim>\<open>SetProfile\<close> has a pointer receiver and assigns the field in place; the model
  returns the updated value.  \<^verbatim>\<open>Profile\<close> has a value receiver and reads the field.
  The field \<^verbatim>\<open>profile\<close> is unexported: a composite literal written outside the
  package cannot name it, and Go gives an omitted field its zero value, the empty string.
\<close>

definition SetProfile :: "CredsFileCredential \<Rightarrow> string \<Rightarrow> CredsFileCredential" where
  "SetProfile c p = c\<lparr>profile := p\<rparr>"

definition Profile :: "CredsFileCredential \<Rightarrow> string" where
  "Profile c = profile c"

definition newCredsFileCredential :: "string \<Rightarrow> string \<Rightarrow> string \<Rightarrow> CredsFileCredential" where
  "newCredsFileCredential a s t =
     \<lparr>CredsFileCredential.AccessKeyID = a, SecretAccessKey = s, SessionToken = t, profile = []\<rparr>"

section \<open>Formatting a timestamp (package time)\<close>

text \<open>
  \<^verbatim>\<open>MarshalJSON\<close> calls \<^verbatim>\<open>c.Expiration.Format(time.RFC3339)\<close> and
  \<^verbatim>\<open>json.Marshal\<close>.  Both belong to Go's standard library, not to the repository; this
  section and the next follow the library's code for the part that the call reaches.
\<close>

subsection \<open>Decimal numbers (strconv, time.appendInt)\<close>

text \<open>
  \<^verbatim>\<open>appendInt(b, x, width)\<close> appends the decimal form of \<^verbatim>\<open>x\<close>, a minus sign first when
  \<^verbatim>\<open>x\<close> is negative, padded with zeros to \<^verbatim>\<open>width\<close> digits.  The functions here return
  the bytes appended.  \<open>quo\<close> is Go's integer division, which truncates towards zero.
\<close>

definition digit :: "nat \<Rightarrow> char" where
  "digit d = ''0123456789'' ! d"

fun utoa :: "nat \<Rightarrow> string" where
  "utoa u = (if u < 10 then [digit u] else utoa (u div 10) @ [digit (u mod 10)])"

declare utoa.simps [simp del]

definition quo :: "int \<Rightarrow> int \<Rightarrow> int" where
  "quo a b = sgn a * sgn b * (\<bar>a\<bar> div \<bar>b\<bar>)"

definition appendInt :: "int \<Rightarrow> nat \<Rightarrow> string" where
  "appendInt x width =
     (let ds = utoa (nat \<bar>x\<bar>)
      in (if x < 0 then ''-'' else []) @ replicate (width - length ds) (CHR ''0'') @ ds)"

text \<open>
  \<^verbatim>\<open>appendNano\<close> for the layout \<^verbatim>\<open>.999999999\<close>: nothing when the nanoseconds are zero,
  otherwise a period and nine digits without the trailing zeros.
\<close>

fun trimZeros :: "string \<Rightarrow> string" where
  "trimZeros b = (if b \<noteq> [] \<and> last b = CHR ''0'' then trimZeros (butlast b) else b)"

declare trimZeros.simps [simp del]

definition appendNano :: "int \<Rightarrow> string" where
  "appendNano nanosec =
     (if nanosec = 0 then []
      else let b = trimZeros (''.'' @ appendInt nanosec 9)
           in if b \<noteq> [] \<and> last b = CHR ''.'' then butlast b else b)"

text \<open>
  \<^verbatim>\<open>Time.appendFormatRFC3339\<close>: date, \<^verbatim>\<open>T\<close>, clock, the nanoseconds when asked for,
  and the zone: \<^verbatim>\<open>Z\<close> when the offset is zero, otherwise sign, hours and minutes of the
  offset (the seconds of the offset are dropped).  \<^verbatim>\<open>Time.Format\<close> selects it for the
  layouts \<^verbatim>\<open>RFC3339\<close> and \<^verbatim>\<open>RFC3339Nano\<close>.
\<close>

definition appendFormatRFC3339 :: "Time \<Rightarrow> bool \<Rightarrow> string" where
  "appendFormatRFC3339 t nanos =
     appendInt (year t) 4 @ ''-'' @ appendInt (month t) 2 @ ''-'' @ appendInt (day t) 2 @
     ''T'' @
     appendInt (hour t) 2 @ '':'' @ appendInt (minute t) 2 @ '':'' @ appendInt (second t) 2 @
     (if nanos then appendNano (nanosecond t) else []) @
     (if zoneOffset t = 0 then ''Z''
      else let zone = quo (zoneOffset t) 60
           in (if zone < 0 then ''-'' else ''+'') @
              appendInt (\<bar>zone\<bar> div 60) 2 @ '':'' @ appendInt (\<bar>zone\<bar> mod 60) 2)"

datatype layout = RFC3339 | RFC3339Nano

fun Format :: "Time \<Rightarrow> layout \<Rightarrow> string" where
  "Format t RFC3339 = appendFormatRFC3339 t False"
| "Format t RFC3339Nano = appendFormatRFC3339 t True"

section \<open>JSON encoding (packages unicode/utf8 and encoding/json)\<close>

subsection \<open>UTF-8 (unicode/utf8)\<close>

text \<open>
  \<^verbatim>\<open>utf8.DecodeRuneInString\<close> returns the first rune of a string and its width in bytes;
  a byte that starts no valid encoding gives \<^verbatim>\<open>(RuneError, 1)\<close>.  Runes are natural
  numbers, and the shifts and masks of the source are written as multiplications and
  remainders.
\<close>

definition RuneError :: nat where
  "RuneError = 0xFFFD"

text \<open>
  The table \<^verbatim>\<open>first\<close>: for the first byte of an encoding, the width in the low three bits
  and the index into \<^verbatim>\<open>acceptRanges\<close> (the range allowed for the second byte) in the
  high four; \<^verbatim>\<open>0xF0\<close> marks ASCII and \<^verbatim>\<open>0xF1\<close> an invalid first byte.
\<close>

definition first :: "nat \<Rightarrow> nat" where
  "first b =
     (if b < 0x80 then 0xF0
      else if b < 0xC2 then 0xF1
      else if b < 0xE0 then 0x02
      else if b = 0xE0 then 0x13
      else if b < 0xED then 0x03
      else if b = 0xED then 0x23
      else if b < 0xF0 then 0x03
      else if b = 0xF0 then 0x34
      else if b < 0xF4 then 0x04
      else if b = 0xF4 then 0x44
      else 0xF1)"

definition acceptRanges :: "nat \<Rightarrow> nat \<times> nat" where
  "acceptRanges i =
     (if i = 1 then (0xA0, 0xBF)
      else if i = 2 then (0x80, 0x9F)
      else if i = 3 then (0x90, 0xBF)
      else if i = 4 then (0x80, 0x8F)
      else (0x80, 0xBF))"

definition DecodeRuneInString :: "string \<Rightarrow> nat \<times> nat" where
  "DecodeRuneInString s =
     (let n = length s in
      if n < 1 then (RuneError, 0)
      else
        let s0 = of_char (s ! 0); x = first s0 in
        if x \<ge> 0xF0 then ((if x = 0xF1 then RuneError else s0), 1)
        else
          let sz = x mod 8; (lo, hi) = acceptRanges (x div 16) in
          if n < sz then (RuneError, 1)
          else
            let s1 = of_char (s ! 1) in
            if s1 < lo \<or> hi < s1 then (RuneError, 1)
            else if sz \<le> 2 then ((s0 mod 32) * 64 + s1 mod 64, 2)
            else
              let s2 = of_char (s ! 2) in
              if s2 < 0x80 \<or> 0xBF < s2 then (RuneError, 1)
              else if sz \<le> 3 then ((s0 mod 16) * 4096 + (s1 mod 64) * 64 + s2 mod 64, 3)
              else
                let s3 = of_char (s ! 3) in
                if s3 < 0x80 \<or> 0xBF < s3 then (RuneError, 1)
                else ((s0 mod 8) * 262144 + (s1 mod 64) * 4096 + (s2 mod 64) * 64 + s3 mod 64, 4))"

lemma DecodeRuneInString_size: "s \<noteq> [] \<Longrightarrow> 1 \<le> snd (DecodeRuneInString s)"
  by (cases s) (simp_all add: DecodeRuneInString_def Let_def split: prod.splits)

subsection \<open>JSON string literals (encoding/json appendString, escapeHTML set)\<close>

text \<open>
  \<^verbatim>\<open>appendString\<close> with \<^verbatim>\<open>escapeHTML\<close> set, as \<^verbatim>\<open>json.Marshal\<close> calls it.  ASCII
  bytes are copied unless they are control characters, the quote, the backslash or one of
  \<^verbatim>\<open><\<close>, \<^verbatim>\<open>>\<close>, \<^verbatim>\<open>&\<close> (the table \<^verbatim>\<open>htmlSafeSet\<close>); a byte that is not UTF-8 is written
  as \<^verbatim>\<open>\ufffd\<close>; U+2028 and U+2029 are escaped; every other rune is copied.  The short
  escapes for backspace and form feed are those of Go 1.22 and later (earlier releases write
  \<^verbatim>\<open>\u0008\<close> and \<^verbatim>\<open>\u000c\<close>).
\<close>

definition htmlSafeSet :: "char \<Rightarrow> bool" where
  "htmlSafeSet b \<longleftrightarrow>
     (0x20::nat) \<le> of_char b \<and> (of_char b :: nat) < 0x80 \<and>
     b \<notin> {CHR 0x22, CHR ''&'', CHR ''<'', CHR ''>'', CHR 0x5C}"

definition hex :: "nat \<Rightarrow> char" where
  "hex d = ''0123456789abcdef'' ! d"

definition escapeByte :: "char \<Rightarrow> string" where
  "escapeByte b =
     (if b = CHR 0x5C \<or> b = CHR 0x22 then [CHR 0x5C, b]
      else if b = CHR 0x08 then [CHR 0x5C, CHR ''b'']
      else if b = CHR 0x0C then [CHR 0x5C, CHR ''f'']
      else if b = CHR 0x0A then [CHR 0x5C, CHR ''n'']
      else if b = CHR 0x0D then [CHR 0x5C, CHR ''r'']
      else if b = CHR 0x09 then [CHR 0x5C, CHR ''t'']
      else [CHR 0x5C, CHR ''u'', CHR ''0'', CHR ''0'',
            hex (of_char b div 16), hex (of_char b mod 16)])"

function appendStringBody :: "string \<Rightarrow> string" where
  "appendStringBody [] = []"
| "appendStringBody (b # bs) =
     (if (of_char b :: nat) < 0x80 then
        (if htmlSafeSet b then b # appendStringBody bs
         else escapeByte b @ appendStringBody bs)
      else
        (let r = DecodeRuneInString (take 4 (b # bs)); c = fst r; size = snd r in
         if c = RuneError \<and> size = 1 then
           CHR 0x5C # ''ufffd'' @ appendStringBody (drop size (b # bs))
         else if c = 0x2028 \<or> c = 0x2029 then
           CHR 0x5C # ''u202'' @ [hex (c mod 16)] @ appendStringBody (drop size (b # bs))
         else take size (b # bs) @ appendStringBody (drop size (b # bs))))"
  by pat_completeness auto
termination
proof (relation "measure length", goal_cases)
  case 1
  show ?case by simp
next
  case 2
  show ?case by simp
next
  case 3
  show ?case by simp
next
  case (4 b bs r c size)
  then show ?case by simp
next
  case (5 b bs r c size)
  then have "1 \<le> size" using DecodeRuneInString_size [of "take 4 (b # bs)"] by simp
  then show ?case by simp
next
  case (6 b bs r c size)
  then have "1 \<le> size" using DecodeRuneInString_size [of "take 4 (b # bs)"] by simp
  then show ?case by simp
qed

definition appendString :: "string \<Rightarrow> string" where
  "appendString src = [CHR 0x22] @ appendStringBody src @ [CHR 0x22]"

subsection \<open>Struct encoding (encoding/json)\<close>

text \<open>
  \<^verbatim>\<open>json.Marshal(obj)\<close>, where \<^verbatim>\<open>obj\<close> points to the anonymous struct of lines 93 to 98:
  the embedded \<^verbatim>\<open>*Alias\<close> (a ProcessCredential without methods, so that encoding it
  does not call \<^verbatim>\<open>MarshalJSON\<close> again) and a field \<^verbatim>\<open>Expiration string\<close>.  The pointer
  \<^verbatim>\<open>Alias\<close> is the receiver and is not nil.

  The values met in these structs are strings, integers and a pointer to a time.  A
  \<open>field\<close> is the encoder's description of a struct field (name, whether the name comes
  from a tag, index sequence, the omitempty option) together with the value found at that
  index.
\<close>

datatype error = MarshalerError string

datatype val = VString string | VInt "64 word" | VTimePtr "Time option"

record field =
  name :: string
  tag :: bool
  index :: "nat list"
  omitEmpty :: bool
  fieldValue :: val

record obj =
  Alias :: ProcessCredential
  Expiration :: string

text \<open>
  The fields found by \<^verbatim>\<open>typeFields\<close>, level by level: at the top level the field
  \<^verbatim>\<open>Expiration\<close> (index 1, tag \<^verbatim>\<open>json:"Expiration"\<close>, no omitempty), then the five
  fields of the embedded struct (index 0), tagged as on lines 75 to 79, all omitempty.
\<close>

definition scanFields :: "obj \<Rightarrow> field list" where
  "scanFields v =
     [\<lparr>name = ''Expiration'', tag = True, index = [1], omitEmpty = False,
        fieldValue = VString (obj.Expiration v)\<rparr>,
      \<lparr>name = ''AccessKeyId'', tag = True, index = [0, 0], omitEmpty = True,
        fieldValue = VString (AccessKeyID (Alias v))\<rparr>,
      \<lparr>name = ''SecretAccessKey'', tag = True, index = [0, 1], omitEmpty = True,
        fieldValue = VString (SecretAccessKey (Alias v))\<rparr>,
      \<lparr>name = ''SessionToken'', tag = True, index = [0, 2], omitEmpty = True,
        fieldValue = VString (SessionToken (Alias v))\<rparr>,
      \<lparr>name = ''Expiration'', tag = True, index = [0, 3], omitEmpty = True,
        fieldValue = VTimePtr (ProcessCredential.Expiration (Alias v))\<rparr>,
      \<lparr>name = ''Version'', tag = True, index = [0, 4], omitEmpty = True,
        fieldValue = VInt (Version (Alias v))\<rparr>]"

text \<open>
  \<^verbatim>\<open>typeFields\<close> sorts the fields by name, then depth, then tagged first, then index;
  keeps for each name the dominant field (the shallowest one, or none when two fields
  compete at the same depth with the same tagging); and sorts what is left by index.
\<close>

fun lexLess :: "nat list \<Rightarrow> nat list \<Rightarrow> bool" where
  "lexLess [] [] = False"
| "lexLess [] (y # ys) = True"
| "lexLess (x # xs) [] = False"
| "lexLess (x # xs) (y # ys) = (x < y \<or> (x = y \<and> lexLess xs ys))"

definition byNameLess :: "field \<Rightarrow> field \<Rightarrow> bool" where
  "byNameLess a b =
     (if name a \<noteq> name b then lexLess (map of_char (name a)) (map of_char (name b))
      else if length (index a) \<noteq> length (index b) then length (index a) < length (index b)
      else if tag a \<noteq> tag b then tag a
      else lexLess (index a) (index b))"

definition byIndexLess :: "field \<Rightarrow> field \<Rightarrow> bool" where
  "byIndexLess a b = lexLess (index a) (index b)"

fun insertBy :: "('a \<Rightarrow> 'a \<Rightarrow> bool) \<Rightarrow> 'a \<Rightarrow> 'a list \<Rightarrow> 'a list" where
  "insertBy lt x [] = [x]"
| "insertBy lt x (y # ys) = (if lt x y then x # y # ys else y # insertBy lt x ys)"

definition sortBy :: "('a \<Rightarrow> 'a \<Rightarrow> bool) \<Rightarrow> 'a list \<Rightarrow> 'a list" where
  "sortBy lt xs = foldr (insertBy lt) xs []"

definition dominantField :: "field list \<Rightarrow> field option" where
  "dominantField fs =
     (case fs of
        [] \<Rightarrow> None
      | [f0] \<Rightarrow> Some f0
      | f0 # f1 # _ \<Rightarrow>
          if length (index f0) = length (index f1) \<and> tag f0 = tag f1 then None else Some f0)"

function dominantFields :: "field list \<Rightarrow> field list" where
  "dominantFields [] = []"
| "dominantFields (fi # fs) =
     (let run = fi # takeWhile (\<lambda>fj. name fj = name fi) fs;
          rest = dropWhile (\<lambda>fj. name fj = name fi) fs
      in (if length run = 1 then [fi]
          else case dominantField run of Some d \<Rightarrow> [d] | None \<Rightarrow> []) @ dominantFields rest)"
  by pat_completeness auto
termination
  by (relation "measure length") (auto simp: length_dropWhile_le le_imp_less_Suc)

definition typeFields :: "obj \<Rightarrow> field list" where
  "typeFields v = sortBy byIndexLess (dominantFields (sortBy byNameLess (scanFields v)))"

text \<open>
  Encoding a value.  A string is a string literal, an integer its decimal form.  A
  \<^verbatim>\<open>*time.Time\<close> is \<^verbatim>\<open>null\<close> when nil and otherwise what \<^verbatim>\<open>Time.MarshalJSON\<close> returns,
  which is an error for a year outside 0 to 9999 or a zone hour outside 0 to 23: the one
  way this encoder can fail.
\<close>

definition isEmptyValue :: "val \<Rightarrow> bool" where
  "isEmptyValue v =
     (case v of VString s \<Rightarrow> length s = 0 | VInt i \<Rightarrow> i = 0 | VTimePtr p \<Rightarrow> p = None)"

definition FormatInt :: "int \<Rightarrow> string" where
  "FormatInt i = (if i < 0 then ''-'' @ utoa (nat (- i)) else utoa (nat i))"

definition num2 :: "string \<Rightarrow> nat" where
  "num2 b = (10 * (of_char (b ! 0) + 256 - 48) + (of_char (b ! 1) + 256 - 48)) mod 256"

definition appendStrictRFC3339 :: "Time \<Rightarrow> string + string" where
  "appendStrictRFC3339 t =
     (let b = appendFormatRFC3339 t True in
      if b ! 4 \<noteq> CHR ''-'' then Inl ''year outside of range [0,9999]''
      else if last b \<noteq> CHR ''Z'' \<and>
              (let c = b ! (length b - 6)
               in ((48::nat) \<le> of_char c \<and> (of_char c :: nat) \<le> 57) \<or>
                  24 \<le> num2 (drop (length b - 5) b))
      then Inl ''timezone hour outside of range [0,23]''
      else Inr b)"

definition Time_MarshalJSON :: "Time \<Rightarrow> string + string" where
  "Time_MarshalJSON t =
     (case appendStrictRFC3339 t of
        Inl err \<Rightarrow> Inl (''Time.MarshalJSON: '' @ err)
      | Inr b \<Rightarrow> Inr ([CHR 0x22] @ b @ [CHR 0x22]))"

definition encodeValue :: "val \<Rightarrow> error + string" where
  "encodeValue v =
     (case v of
        VString s \<Rightarrow> Inr (appendString s)
      | VInt i \<Rightarrow> Inr (FormatInt (sint i))
      | VTimePtr None \<Rightarrow> Inr ''null''
      | VTimePtr (Some t) \<Rightarrow>
          (case Time_MarshalJSON t of
             Inl err \<Rightarrow> Inl (MarshalerError err)
           | Inr b \<Rightarrow> Inr b))"

text \<open>
  \<^verbatim>\<open>structEncoder.encode\<close>: every field that is not both omitempty and empty is written
  as its quoted name, a colon and its value, after \<^verbatim>\<open>{\<close> for the first and a comma for the
  others.  (A name is a Go identifier or a valid tag, so of the characters that
  \<^verbatim>\<open>HTMLEscape\<close> rewrites only \<^verbatim>\<open><\<close>, \<^verbatim>\<open>>\<close> and \<^verbatim>\<open>&\<close> can occur in it.)
\<close>

definition HTMLEscapeByte :: "char \<Rightarrow> string" where
  "HTMLEscapeByte c =
     (if c = CHR ''<'' \<or> c = CHR ''>'' \<or> c = CHR ''&''
      then [CHR 0x5C, CHR ''u'', CHR ''0'', CHR ''0'', hex (of_char c div 16), hex (of_char c mod 16)]
      else [c])"

definition nameEscHTML :: "field \<Rightarrow> string" where
  "nameEscHTML f = [CHR 0x22] @ concat (map HTMLEscapeByte (name f)) @ [CHR 0x22, CHR '':'']"

fun structEncode :: "char \<Rightarrow> field list \<Rightarrow> error + string" where
  "structEncode next [] = Inr (if next = CHR ''{'' then ''{}'' else ''}'')"
| "structEncode next (f # fs) =
     (if omitEmpty f \<and> isEmptyValue (fieldValue f) then structEncode next fs
      else
        case encodeValue (fieldValue f) of
          Inl err \<Rightarrow> Inl err
        | Inr b \<Rightarrow>
            (case structEncode (CHR '','') fs of
               Inl err \<Rightarrow> Inl err
             | Inr rest \<Rightarrow> Inr (next # nameEscHTML f @ b @ rest)))"

definition json_Marshal :: "obj \<Rightarrow> error + string" where
  "json_Marshal v = structEncode (CHR ''{'') (typeFields v)"

text \<open>
  \<^verbatim>\<open>ProcessCredential.MarshalJSON\<close>, lines 86 to 103.
\<close>

definition MarshalJSON :: "ProcessCredential \<Rightarrow> error + string" where
  "MarshalJSON c =
     (let exp = (case ProcessCredential.Expiration c of
                   None \<Rightarrow> []
                 | Some t \<Rightarrow> Format t RFC3339);
          obj0 = \<lparr>Alias = c, Expiration = []\<rparr>;
          obj1 = (if exp \<noteq> [] then obj0\<lparr>obj.Expiration := exp\<rparr> else obj0)
      in json_Marshal obj1)"

section \<open>Reading a document back (encoding/json, the decoding side)\<close>

text \<open>
  What a document says is fixed by reading it: this section models the decoding side of
  \<^verbatim>\<open>encoding/json\<close> for the documents in question, namely objects without white space
  whose values are strings, integers or \<^verbatim>\<open>null\<close>.  On anything else the reader gives
  \<open>None\<close>.  The repository has no decoder of its own.
\<close>

subsection \<open>String literals\<close>

text \<open>
  \<^verbatim>\<open>utf8.EncodeRune\<close>, and \<^verbatim>\<open>unquote\<close> of \<^verbatim>\<open>encoding/json\<close>: the body of a string
  literal up to the closing quote, with escapes replaced (\<^verbatim>\<open>\uXXXX\<close> through
  \<^verbatim>\<open>getu4\<close>, surrogate pairs combined) and bytes that are not UTF-8 replaced by U+FFFD.
  The result is the string and the input after the closing quote.
\<close>

definition EncodeRune :: "nat \<Rightarrow> string" where
  "EncodeRune r =
     (if r < 0x80 then [char_of r]
      else if r < 0x800 then [char_of (0xC0 + r div 64), char_of (0x80 + r mod 64)]
      else if 0x10FFFF < r \<or> (0xD800 \<le> r \<and> r \<le> 0xDFFF) then [CHR 0xEF, CHR 0xBF, CHR 0xBD]
      else if r < 0x10000 then
        [char_of (0xE0 + r div 4096), char_of (0x80 + r div 64 mod 64), char_of (0x80 + r mod 64)]
      else
        [char_of (0xF0 + r div 262144), char_of (0x80 + r div 4096 mod 64),
         char_of (0x80 + r div 64 mod 64), char_of (0x80 + r mod 64)])"

definition hexVal :: "char \<Rightarrow> nat option" where
  "hexVal c =
     (let n = of_char c :: nat in
      if 48 \<le> n \<and> n \<le> 57 then Some (n - 48)
      else if 97 \<le> n \<and> n \<le> 102 then Some (n - 97 + 10)
      else if 65 \<le> n \<and> n \<le> 70 then Some (n - 65 + 10)
      else None)"

fun getu4 :: "string \<Rightarrow> nat option" where
  "getu4 (b0 # b1 # h1 # h2 # h3 # h4 # _) =
     (if b0 \<noteq> CHR 0x5C \<or> b1 \<noteq> CHR ''u'' then None
      else case (hexVal h1, hexVal h2, hexVal h3, hexVal h4) of
             (Some d1, Some d2, Some d3, Some d4) \<Rightarrow> Some (((d1 * 16 + d2) * 16 + d3) * 16 + d4)
           | _ \<Rightarrow> None)"
| "getu4 _ = None"

definition utf16_DecodeRune :: "nat \<Rightarrow> nat option \<Rightarrow> nat" where
  "utf16_DecodeRune r1 r2 =
     (case r2 of
        None \<Rightarrow> RuneError
      | Some r2' \<Rightarrow>
          if 0xD800 \<le> r1 \<and> r1 < 0xDC00 \<and> 0xDC00 \<le> r2' \<and> r2' < 0xE000
          then (r1 - 0xD800) * 1024 + (r2' - 0xDC00) + 0x10000
          else RuneError)"

lemma DecodeRuneInString_Cons_pos: "0 < snd (DecodeRuneInString (c # cs))"
  using DecodeRuneInString_size [of "c # cs"] by simp

definition emit :: "string \<Rightarrow> (string \<times> string) option \<Rightarrow> (string \<times> string) option" where
  "emit b res = map_option (\<lambda>(t, rest). (b @ t, rest)) res"

function unquoteBody :: "string \<Rightarrow> (string \<times> string) option" where
  "unquoteBody [] = None"
| "unquoteBody (c # cs) =
     (if c = CHR 0x5C then
        (case cs of
           [] \<Rightarrow> None
         | e # es \<Rightarrow>
             if e = CHR 0x22 \<or> e = CHR 0x5C \<or> e = CHR ''/'' then emit [e] (unquoteBody es)
             else if e = CHR ''b'' then emit [CHR 0x08] (unquoteBody es)
             else if e = CHR ''f'' then emit [CHR 0x0C] (unquoteBody es)
             else if e = CHR ''n'' then emit [CHR 0x0A] (unquoteBody es)
             else if e = CHR ''r'' then emit [CHR 0x0D] (unquoteBody es)
             else if e = CHR ''t'' then emit [CHR 0x09] (unquoteBody es)
             else if e = CHR ''u'' then
               (case getu4 (c # cs) of
                  None \<Rightarrow> None
                | Some rr \<Rightarrow>
                    if 0xD800 \<le> rr \<and> rr < 0xE000 then
                      (let dec = utf16_DecodeRune rr (getu4 (drop 6 (c # cs))) in
                       if dec \<noteq> RuneError then emit (EncodeRune dec) (unquoteBody (drop 12 (c # cs)))
                       else emit (EncodeRune RuneError) (unquoteBody (drop 6 (c # cs))))
                    else emit (EncodeRune rr) (unquoteBody (drop 6 (c # cs))))
             else None)
      else if c = CHR 0x22 then Some ([], cs)
      else if (of_char c :: nat) < 0x20 then None
      else if (of_char c :: nat) < 0x80 then emit [c] (unquoteBody cs)
      else
        (let r = DecodeRuneInString (take 4 (c # cs))
         in emit (EncodeRune (fst r)) (unquoteBody (drop (snd r) (c # cs)))))"
  by pat_completeness auto
termination
  by (relation "measure length") (simp_all add: DecodeRuneInString_Cons_pos)

text \<open>The reader, one step at a time.\<close>

lemma hexVal_hex: "d < 16 \<Longrightarrow> hexVal (hex d) = Some d"
proof -
  assume "d < 16"
  then have "d \<in> set [0..<16]" by simp
  then show ?thesis
    by (auto simp: upt_rec hex_def hexVal_def)
qed

lemma unq_plain:
  "c \<noteq> CHR 0x5C \<Longrightarrow> c \<noteq> CHR 0x22 \<Longrightarrow> 0x20 \<le> (of_char c :: nat) \<Longrightarrow> (of_char c :: nat) < 0x80 \<Longrightarrow>
   unquoteBody (c # cs) = emit [c] (unquoteBody cs)"
  by simp

lemma unq_hi:
  "0x80 \<le> (of_char c :: nat) \<Longrightarrow>
   unquoteBody (c # cs) =
     emit (EncodeRune (fst (DecodeRuneInString (take 4 (c # cs)))))
       (unquoteBody (drop (snd (DecodeRuneInString (take 4 (c # cs)))) (c # cs)))"
  by (auto simp: Let_def)

lemma unq_quote: "unquoteBody (CHR 0x22 # cs) = Some ([], cs)"
  by simp

lemma unq_esc:
  "unquoteBody (CHR 0x5C # CHR 0x22 # es) = emit [CHR 0x22] (unquoteBody es)"
  "unquoteBody (CHR 0x5C # CHR 0x5C # es) = emit [CHR 0x5C] (unquoteBody es)"
  "unquoteBody (CHR 0x5C # CHR ''b'' # es) = emit [CHR 0x08] (unquoteBody es)"
  "unquoteBody (CHR 0x5C # CHR ''f'' # es) = emit [CHR 0x0C] (unquoteBody es)"
  "unquoteBody (CHR 0x5C # CHR ''n'' # es) = emit [CHR 0x0A] (unquoteBody es)"
  "unquoteBody (CHR 0x5C # CHR ''r'' # es) = emit [CHR 0x0D] (unquoteBody es)"
  "unquoteBody (CHR 0x5C # CHR ''t'' # es) = emit [CHR 0x09] (unquoteBody es)"
  by simp_all

lemma unq_u:
  assumes "hexVal h1 = Some d1" "hexVal h2 = Some d2" "hexVal h3 = Some d3" "hexVal h4 = Some d4"
    and "rr = ((d1 * 16 + d2) * 16 + d3) * 16 + d4" and "\<not> (0xD800 \<le> rr \<and> rr < 0xE000)"
  shows "unquoteBody (CHR 0x5C # CHR ''u'' # h1 # h2 # h3 # h4 # es) =
           emit (EncodeRune rr) (unquoteBody es)"
  using assms by auto

declare unquoteBody.simps [simp del]

subsection \<open>Numbers, values, members\<close>

text \<open>
  A member of an object is its key, the text of its value as written, and the value.
\<close>

datatype jvalue = JString string | JNumber int | JNull

definition isDigit :: "char \<Rightarrow> bool" where
  "isDigit c \<longleftrightarrow> (48::nat) \<le> of_char c \<and> (of_char c :: nat) \<le> 57"

definition digitsVal :: "string \<Rightarrow> nat" where
  "digitsVal ds = foldl (\<lambda>v c. v * 10 + (of_char c - 48)) 0 ds"

definition readNumber :: "string \<Rightarrow> (int \<times> string) option" where
  "readNumber s =
     (let neg = (s \<noteq> [] \<and> hd s = CHR ''-'');
          s1 = (if neg then tl s else s);
          ds = takeWhile isDigit s1;
          rest = dropWhile isDigit s1
      in if ds = [] \<or> (hd ds = CHR ''0'' \<and> 1 < length ds) then None
         else if rest \<noteq> [] \<and> hd rest \<in> {CHR ''.'', CHR ''e'', CHR ''E''} then None
         else Some ((if neg then - int (digitsVal ds) else int (digitsVal ds)), rest))"

definition readValue :: "string \<Rightarrow> (string \<times> jvalue \<times> string) option" where
  "readValue s =
     (case s of
        [] \<Rightarrow> None
      | c # cs \<Rightarrow>
          if c = CHR 0x22 then
            (case unquoteBody cs of
               None \<Rightarrow> None
             | Some (t, rest) \<Rightarrow> Some (take (length s - length rest) s, JString t, rest))
          else if take 4 s = ''null'' then Some (''null'', JNull, drop 4 s)
          else
            (case readNumber s of
               None \<Rightarrow> None
             | Some (i, rest) \<Rightarrow> Some (take (length s - length rest) s, JNumber i, rest)))"

lemma emit_length:
  "emit x r = Some (t, rest) \<Longrightarrow> \<exists>t'. r = Some (t', rest)"
  by (cases r) (auto simp: emit_def)

lemma unquoteBody_length:
  "unquoteBody s = Some (t, rest) \<Longrightarrow> length rest < length s"
proof (induction s arbitrary: t rule: length_induct)
  case (1 s)
  from "1.prems" obtain c cs where s: "s = c # cs"
    by (cases s) (simp_all add: unquoteBody.simps)
  have sub: "length rest < length u"
    if "emit x (unquoteBody u) = Some (t, rest)" "length u \<le> length cs" for x u
  proof -
    from that(1) obtain t' where "unquoteBody u = Some (t', rest)"
      by (auto dest: emit_length)
    moreover have "length u < length s" using that(2) s by simp
    ultimately show ?thesis using "1.IH" by blast
  qed
  have e: "unquoteBody (c # cs) = Some (t, rest)" using "1.prems" s by simp
  consider (bs) "c = CHR 0x5C" | (q) "c = CHR 0x22"
    | (plain) "c \<noteq> CHR 0x5C" "c \<noteq> CHR 0x22" "(of_char c :: nat) < 0x80"
    | (hi) "0x80 \<le> (of_char c :: nat)"
    by fastforce
  then have "length rest \<le> length cs"
  proof cases
    case bs
    show ?thesis
    proof (cases cs)
      case Nil
      with e bs show ?thesis by (simp add: unquoteBody.simps)
    next
      case (Cons e' es)
      have k: "length rest \<le> Suc (length es)"
        if "emit x (unquoteBody (drop j es)) = Some (t, rest)" for x j
      proof -
        have "length (drop j es) \<le> length cs" using Cons by simp
        from sub [OF that this] show ?thesis by simp
      qed
      have k0: "length rest \<le> Suc (length es)"
        if "emit x (unquoteBody es) = Some (t, rest)" for x
        using k [of x 0] that by simp
      from e bs Cons show ?thesis
        apply (subst (asm) unquoteBody.simps)
        apply (simp add: Let_def split: if_splits option.splits)
                apply (blast intro: k0 k)+
        done
    qed
  next
    case q
    with e show ?thesis by (simp add: unquoteBody.simps)
  next
    case plain
    show ?thesis
    proof (cases "0x20 \<le> (of_char c :: nat)")
      case True
      with plain e have "emit [c] (unquoteBody cs) = Some (t, rest)"
        by (simp add: unq_plain)
      from sub [OF this] show ?thesis by simp
    next
      case False
      with plain e show ?thesis by (simp add: unquoteBody.simps)
    qed
  next
    case hi
    let ?n = "snd (DecodeRuneInString (take 4 (c # cs)))"
    have pos: "0 < ?n"
      using DecodeRuneInString_Cons_pos [of c "take 3 cs"] by simp
    then have l: "length (drop ?n (c # cs)) \<le> length cs" by simp
    from e have "emit (EncodeRune (fst (DecodeRuneInString (take 4 (c # cs)))))
                   (unquoteBody (drop ?n (c # cs))) = Some (t, rest)"
      by (simp only: unq_hi [OF hi])
    from sub [OF this l] l show ?thesis by simp
  qed
  then show ?case using s by simp
qed

lemma readNumber_length: "readNumber s = Some (i, rest) \<Longrightarrow> length rest \<le> length s"
  by (auto simp: readNumber_def Let_def length_dropWhile_le le_SucI
      split: if_splits intro: order_trans [OF length_dropWhile_le])

lemma readValue_length: "readValue s = Some (raw, v, rest) \<Longrightarrow> length rest \<le> length s"
  by (cases s)
    (auto simp: readValue_def split: if_splits option.splits
      dest!: unquoteBody_length readNumber_length)

function readMembers :: "string \<Rightarrow> (string \<times> string \<times> jvalue) list option" where
  "readMembers s =
     (case s of
        [] \<Rightarrow> None
      | q # cs \<Rightarrow>
          if q \<noteq> CHR 0x22 then None
          else
            (case unquoteBody cs of
               None \<Rightarrow> None
             | Some (k, r1) \<Rightarrow>
                 (case r1 of
                    [] \<Rightarrow> None
                  | colon # r2 \<Rightarrow>
                      if colon \<noteq> CHR '':'' then None
                      else
                        (case readValue r2 of
                           None \<Rightarrow> None
                         | Some (raw, v, r3) \<Rightarrow>
                             (case r3 of
                                [] \<Rightarrow> None
                              | d # r4 \<Rightarrow>
                                  if d = CHR ''}'' \<and> r4 = [] then Some [(k, raw, v)]
                                  else if d = CHR '','' then
                                    map_option ((#) (k, raw, v)) (readMembers r4)
                                  else None)))))"
  by pat_completeness auto
termination
proof (relation "measure length", goal_cases)
  case 1
  show ?case by simp
next
  case (2 s q cs x2 k r1 colon r2 x2a raw y v r3 d r4)
  then have "length r1 < length cs" "length r3 \<le> length r2"
    by (auto dest: unquoteBody_length readValue_length)
  with 2 show ?case by simp
qed

declare readMembers.simps [simp del]

definition readObject :: "string \<Rightarrow> (string \<times> string \<times> jvalue) list option" where
  "readObject s =
     (case s of
        [] \<Rightarrow> None
      | c # cs \<Rightarrow>
          if c \<noteq> CHR ''{'' then None
          else if cs = ''}'' then Some []
          else readMembers cs)"

subsection \<open>Decoding into a ProcessCredential (json.Unmarshal, time.Time.UnmarshalJSON)\<close>

text \<open>
  \<^verbatim>\<open>json.Unmarshal\<close> into a zero ProcessCredential.  A string member sets a string field,
  an integer member the field Version, and the member Expiration is handed, as written,
  to \<^verbatim>\<open>Time.UnmarshalJSON\<close>, which parses it with \<^verbatim>\<open>parseStrictRFC3339\<close>: first
  \<^verbatim>\<open>parseRFC3339\<close>, the parser of the RFC 3339 grammar, and, where that one rejects the
  text, \<^verbatim>\<open>time.Parse\<close> with the layout \<^verbatim>\<open>RFC3339\<close>, whose result is returned as it is
  (the stricter checks that follow it in the library are switched off there).  Keys are
  matched exactly.  A document that is not a compact object of strings, integers and nulls,
  or that has another key, is outside the model: the error \<open>NotModelled\<close>.

  The readings of the time parsed are the fields parsed and the offset parsed, as they
  are for every calendar date.
\<close>

definition parseUint :: "string \<Rightarrow> nat \<Rightarrow> nat \<Rightarrow> nat option" where
  "parseUint s lo hi =
     (if list_all isDigit s
      then (let x = digitsVal s in if x < lo \<or> hi < x then None else Some x)
      else None)"

definition isLeap :: "nat \<Rightarrow> bool" where
  "isLeap y \<longleftrightarrow> y mod 4 = 0 \<and> (y mod 100 \<noteq> 0 \<or> y mod 400 = 0)"

definition daysIn :: "nat \<Rightarrow> nat \<Rightarrow> nat" where
  "daysIn m y =
     (if m = 2 then (if isLeap y then 29 else 28)
      else if m = 4 \<or> m = 6 \<or> m = 9 \<or> m = 11 then 30
      else 31)"

definition parseZone :: "string \<Rightarrow> int option" where
  "parseZone s =
     (if s = ''Z'' then Some 0
      else if length s \<noteq> 6 then None
      else
        case (parseUint (take 2 (drop 1 s)) 0 23, parseUint (take 2 (drop 4 s)) 0 59) of
          (Some hr, Some mm) \<Rightarrow>
            if \<not> ((s ! 0 = CHR ''-'' \<or> s ! 0 = CHR ''+'') \<and> s ! 3 = CHR '':'') then None
            else Some (if s ! 0 = CHR ''-'' then - int ((hr * 60 + mm) * 60)
                       else int ((hr * 60 + mm) * 60))
        | _ \<Rightarrow> None)"

definition parseRFC3339 :: "string \<Rightarrow> Time option" where
  "parseRFC3339 s =
     (if length s < 19 then None
      else
        case (parseUint (take 4 s) 0 9999, parseUint (take 2 (drop 5 s)) 1 12) of
          (Some y, Some mo) \<Rightarrow>
            (case (parseUint (take 2 (drop 8 s)) 1 (daysIn mo y),
                   parseUint (take 2 (drop 11 s)) 0 23,
                   parseUint (take 2 (drop 14 s)) 0 59,
                   parseUint (take 2 (drop 17 s)) 0 59) of
               (Some d, Some h, Some mi, Some sec) \<Rightarrow>
                 if \<not> (s ! 4 = CHR ''-'' \<and> s ! 7 = CHR ''-'' \<and> s ! 10 = CHR ''T'' \<and>
                        s ! 13 = CHR '':'' \<and> s ! 16 = CHR '':'') then None
                 else
                   (let s1 = drop 19 s;
                        hasFrac = (2 \<le> length s1 \<and> s1 ! 0 = CHR ''.'' \<and> isDigit (s1 ! 1));
                        frac = take 9 (takeWhile isDigit (tl s1));
                        nsec = (if hasFrac then digitsVal frac * 10 ^ (9 - length frac) else 0);
                        s2 = (if hasFrac then dropWhile isDigit (tl s1) else s1)
                    in case parseZone s2 of
                         None \<Rightarrow> None
                       | Some off \<Rightarrow>
                           Some \<lparr>year = int y, month = int mo, day = int d, hour = int h,
                             minute = int mi, second = int sec, nanosecond = int nsec,
                             zoneOffset = off\<rparr>)
             | _ \<Rightarrow> None)
        | _ \<Rightarrow> None)"

text \<open>
  \<^verbatim>\<open>time.Parse\<close> for the layout \<^verbatim>\<open>RFC3339\<close>, that is \<^verbatim>\<open>2006-01-02T15:04:05Z07:00\<close>.
  The layout is read as the chunks year, \<^verbatim>\<open>-\<close> month, \<^verbatim>\<open>-\<close> day, \<^verbatim>\<open>T\<close> hour,
  \<^verbatim>\<open>:\<close> minute, \<^verbatim>\<open>:\<close> second, zone; for each chunk the literal prefix is skipped and
  the element parsed, and the first failure ends the parse.  \<^verbatim>\<open>getnum\<close> reads two digits,
  or a single one when the width is not fixed, which is the case of the hour.  A fraction
  of a second after the seconds is accepted although the layout has none.  The zone is
  \<^verbatim>\<open>Z\<close> or sign, two digits, colon, two digits, and its range test admits 24 hours and
  60 minutes.  The day of the month is checked last.  \<open>skip\<close> is the library's function
  for a prefix without spaces.
\<close>

definition isDigitAt :: "string \<Rightarrow> nat \<Rightarrow> bool" where
  "isDigitAt s i \<longleftrightarrow> i < length s \<and> isDigit (s ! i)"

definition getnum :: "string \<Rightarrow> bool \<Rightarrow> (nat \<times> string) option" where
  "getnum s fixed =
     (if \<not> isDigitAt s 0 then None
      else if \<not> isDigitAt s 1
        then (if fixed then None else Some (of_char (s ! 0) - 48, drop 1 s))
      else Some ((of_char (s ! 0) - 48) * 10 + (of_char (s ! 1) - 48), drop 2 s))"

fun skip :: "string \<Rightarrow> string \<Rightarrow> string option" where
  "skip v [] = Some v"
| "skip [] (p # ps) = None"
| "skip (c # cs) (p # ps) = (if c = p then skip cs ps else None)"

definition secondsFraction :: "string \<Rightarrow> nat \<times> string" where
  "secondsFraction v =
     (if 2 \<le> length v \<and> (v ! 0 = CHR ''.'' \<or> v ! 0 = CHR '','') \<and> isDigit (v ! 1)
      then (let frac = take 9 (takeWhile isDigit (tl v))
            in (digitsVal frac * 10 ^ (9 - length frac), dropWhile isDigit (tl v)))
      else (0, v))"

definition parseColonTZ :: "string \<Rightarrow> (int \<times> string) option" where
  "parseColonTZ v =
     (if 1 \<le> length v \<and> v ! 0 = CHR ''Z'' then Some (0, drop 1 v)
      else if length v < 6 then None
      else if v ! 3 \<noteq> CHR '':'' then None
      else
        case (getnum (take 2 (drop 1 v)) True, getnum (take 2 (drop 4 v)) True) of
          (Some (hr, r1), Some (mm, r2)) \<Rightarrow>
            if 24 < hr \<or> 60 < mm then None
            else if v ! 0 = CHR ''+'' then Some (int ((hr * 60 + mm) * 60), drop 6 v)
            else if v ! 0 = CHR ''-'' then Some (- int ((hr * 60 + mm) * 60), drop 6 v)
            else None
        | _ \<Rightarrow> None)"

definition Parse_RFC3339 :: "string \<Rightarrow> Time option" where
  "Parse_RFC3339 v =
     (if length v < 4 \<or> \<not> isDigit (v ! 0) \<or> \<not> list_all isDigit (take 4 v) then None
      else
        case Option.bind (skip (drop 4 v) ''-'') (\<lambda>r. getnum r True) of
          None \<Rightarrow> None
        | Some (mo, v1) \<Rightarrow>
            if mo = 0 \<or> 12 < mo then None
            else
              (case Option.bind (skip v1 ''-'') (\<lambda>r. getnum r True) of
                 None \<Rightarrow> None
               | Some (d, v2) \<Rightarrow>
                   (case Option.bind (skip v2 ''T'') (\<lambda>r. getnum r False) of
                      None \<Rightarrow> None
                    | Some (h, v3) \<Rightarrow>
                        if 24 \<le> h then None
                        else
                          (case Option.bind (skip v3 '':'') (\<lambda>r. getnum r True) of
                             None \<Rightarrow> None
                           | Some (mi, v4) \<Rightarrow>
                               if 60 \<le> mi then None
                               else
                                 (case Option.bind (skip v4 '':'') (\<lambda>r. getnum r True) of
                                    None \<Rightarrow> None
                                  | Some (sec, v5) \<Rightarrow>
                                      if 60 \<le> sec then None
                                      else
                                        (case parseColonTZ (snd (secondsFraction v5)) of
                                           None \<Rightarrow> None
                                         | Some (off, v6) \<Rightarrow>
                                             if v6 \<noteq> [] then None
                                             else if d < 1 \<or> daysIn mo (digitsVal (take 4 v)) < d
                                               then None
                                             else
                                               Some \<lparr>year = int (digitsVal (take 4 v)),
                                                 month = int mo, day = int d, hour = int h,
                                                 minute = int mi, second = int sec,
                                                 nanosecond = int (fst (secondsFraction v5)),
                                                 zoneOffset = off\<rparr>))))))"

datatype unmarshalError = NotModelled | UnmarshalTypeError | TimeParseError

definition parseStrictRFC3339 :: "string \<Rightarrow> unmarshalError + Time" where
  "parseStrictRFC3339 b =
     (case parseRFC3339 b of
        Some t \<Rightarrow> Inr t
      | None \<Rightarrow>
          (case Parse_RFC3339 b of
             None \<Rightarrow> Inl TimeParseError
           | Some t \<Rightarrow> Inr t))"

text \<open>
  \<^verbatim>\<open>Time.UnmarshalJSON\<close> is a method of the time it sets: the first argument is the value
  of the receiver before the call, which the input \<^verbatim>\<open>null\<close> leaves as it is.
  \<^verbatim>\<open>json.Unmarshal\<close> calls it on the time that the field Expiration points to, or on a
  new zero time when the field is nil; it does not call it for \<^verbatim>\<open>null\<close>, which sets
  the field to nil.
\<close>

definition Time_UnmarshalJSON :: "Time \<Rightarrow> string \<Rightarrow> unmarshalError + Time" where
  "Time_UnmarshalJSON t data =
     (if data = ''null'' then Inr t
      else if length data < 2 \<or> data ! 0 \<noteq> CHR 0x22 \<or> data ! (length data - 1) \<noteq> CHR 0x22
      then Inl TimeParseError
      else parseStrictRFC3339 (take (length data - 2) (drop 1 data)))"

definition zeroTime :: Time where
  "zeroTime = \<lparr>year = 1, month = 1, day = 1, hour = 0, minute = 0, second = 0,
     nanosecond = 0, zoneOffset = 0\<rparr>"

definition setField ::
  "ProcessCredential \<Rightarrow> string \<times> string \<times> jvalue \<Rightarrow> unmarshalError + ProcessCredential" where
  "setField c m =
     (case m of (k, raw, v) \<Rightarrow>
        if k = ''AccessKeyId'' then
          (case v of
             JString s \<Rightarrow> Inr (c\<lparr>ProcessCredential.AccessKeyID := s\<rparr>)
           | JNumber n \<Rightarrow> Inl UnmarshalTypeError
           | JNull \<Rightarrow> Inr c)
        else if k = ''SecretAccessKey'' then
          (case v of
             JString s \<Rightarrow> Inr (c\<lparr>ProcessCredential.SecretAccessKey := s\<rparr>)
           | JNumber n \<Rightarrow> Inl UnmarshalTypeError
           | JNull \<Rightarrow> Inr c)
        else if k = ''SessionToken'' then
          (case v of
             JString s \<Rightarrow> Inr (c\<lparr>ProcessCredential.SessionToken := s\<rparr>)
           | JNumber n \<Rightarrow> Inl UnmarshalTypeError
           | JNull \<Rightarrow> Inr c)
        else if k = ''Version'' then
          (case v of
             JString s \<Rightarrow> Inl UnmarshalTypeError
           | JNumber n \<Rightarrow>
               if - (2 ^ 63) \<le> n \<and> n < 2 ^ 63 then Inr (c\<lparr>Version := word_of_int n\<rparr>)
               else Inl UnmarshalTypeError
           | JNull \<Rightarrow> Inr c)
        else if k = ''Expiration'' then
          (case v of
             JNull \<Rightarrow> Inr (c\<lparr>ProcessCredential.Expiration := None\<rparr>)
           | _ \<Rightarrow>
               (case Time_UnmarshalJSON
                       (case ProcessCredential.Expiration c of None \<Rightarrow> zeroTime | Some t \<Rightarrow> t)
                       raw of
                  Inl e \<Rightarrow> Inl e
                | Inr t \<Rightarrow> Inr (c\<lparr>ProcessCredential.Expiration := Some t\<rparr>)))
        else Inl NotModelled)"

fun decodeMembers ::
  "ProcessCredential \<Rightarrow> (string \<times> string \<times> jvalue) list \<Rightarrow> unmarshalError + ProcessCredential"
  where
  "decodeMembers c [] = Inr c"
| "decodeMembers c (m # ms) =
     (case setField c m of Inl e \<Rightarrow> Inl e | Inr c' \<Rightarrow> decodeMembers c' ms)"

definition Unmarshal :: "string \<Rightarrow> unmarshalError + ProcessCredential" where
  "Unmarshal data =
     (case readObject data of
        None \<Rightarrow> Inl NotModelled
      | Some ms \<Rightarrow>
          decodeMembers \<lparr>AccessKeyID = [], SecretAccessKey = [], SessionToken = [],
            Expiration = None, Version = 0\<rparr> ms)"

text \<open>
  \<^verbatim>\<open>utf8.ValidString\<close>: no decoding step meets an invalid byte.  \<open>civil\<close> holds of the
  readings of a timestamp: a month of the year, a day of that month, and an hour, minute
  and second of the clock, as the readings of every \<^verbatim>\<open>time.Time\<close> are (the length of
  February is that of the years from 0 on).
\<close>

function ValidString :: "string \<Rightarrow> bool" where
  "ValidString [] = True"
| "ValidString (b # bs) =
     (let r = DecodeRuneInString (take 4 (b # bs)) in
      \<not> (fst r = RuneError \<and> snd r = 1) \<and> ValidString (drop (snd r) (b # bs)))"
  by pat_completeness auto
termination
  by (relation "measure length") (simp_all add: DecodeRuneInString_Cons_pos)

definition civil :: "Time \<Rightarrow> bool" where
  "civil t \<longleftrightarrow>
     1 \<le> month t \<and> month t \<le> 12 \<and>
     1 \<le> day t \<and> day t \<le> int (daysIn (nat (month t)) (nat (year t))) \<and>
     0 \<le> hour t \<and> hour t \<le> 23 \<and> 0 \<le> minute t \<and> minute t \<le> 59 \<and>
     0 \<le> second t \<and> second t \<le> 59"

text \<open>
  The text that RFC 3339 (section 5.6) gives a timestamp to the second, written from the
  grammar and not from the library: four digits of year, two of month and of day,
  \<^verbatim>\<open>T\<close>, two digits each of hour, minute and second, and the offset from UTC:
  \<^verbatim>\<open>Z\<close> for none, otherwise the sign and two digits each of hours and minutes, the
  seconds of the offset left out.  \<open>fixedDigits k n\<close> is the number \<open>n\<close> in \<open>k\<close>
  decimal digits, the most significant first.
\<close>

definition decimalDigit :: "nat \<Rightarrow> char" where
  "decimalDigit d = char_of (48 + d)"

fun fixedDigits :: "nat \<Rightarrow> nat \<Rightarrow> string" where
  "fixedDigits 0 n = []"
| "fixedDigits (Suc k) n = fixedDigits k (n div 10) @ [decimalDigit (n mod 10)]"

definition rfc3339Offset :: "int \<Rightarrow> string" where
  "rfc3339Offset off =
     (if off = 0 then ''Z''
      else (if off \<le> - 60 then ''-'' else ''+'') @
           fixedDigits 2 (nat \<bar>off\<bar> div 3600) @ '':'' @ fixedDigits 2 (nat \<bar>off\<bar> div 60 mod 60))"

definition rfc3339Text :: "Time \<Rightarrow> string" where
  "rfc3339Text t =
     fixedDigits 4 (nat (year t)) @ ''-'' @ fixedDigits 2 (nat (month t)) @ ''-'' @
     fixedDigits 2 (nat (day t)) @ ''T'' @
     fixedDigits 2 (nat (hour t)) @ '':'' @ fixedDigits 2 (nat (minute t)) @ '':'' @
     fixedDigits 2 (nat (second t)) @ rfc3339Offset (zoneOffset t)"

text \<open>
  The string with every byte that is not UTF-8 replaced by U+FFFD: what an encoded string
  is read back as.
\<close>

function coerceUTF8 :: "string \<Rightarrow> string" where
  "coerceUTF8 [] = []"
| "coerceUTF8 (b # bs) =
     (let r = DecodeRuneInString (take 4 (b # bs)) in
      if fst r = RuneError \<and> snd r = 1 then [CHR 0xEF, CHR 0xBF, CHR 0xBD] @ coerceUTF8 bs
      else take (snd r) (b # bs) @ coerceUTF8 (drop (snd r) (b # bs)))"
  by pat_completeness auto
termination
  by (relation "measure length") (simp_all add: DecodeRuneInString_Cons_pos)

subsection \<open>Notions used in the proofs\<close>

text \<open>
  Continuation bytes of UTF-8 (\<open>cont\<close>, and \<open>cont2\<close> for the second byte, whose range
  depends on the first); strings that the encoder copies unchanged (\<open>plain\<close>); the text of
  the Expiration member (\<open>expirationText\<close>) and the members of the document written for a
  credential (\<open>members\<close>); the zone as \<^verbatim>\<open>Format\<close> writes it and the offset it is read
  back as; a timestamp as it is read back; and the first of June 2023, midnight, UTC.
\<close>

definition cont :: "char \<Rightarrow> bool" where
  "cont c \<longleftrightarrow> 0x80 \<le> (of_char c :: nat) \<and> (of_char c :: nat) \<le> 0xBF"

definition cont2 :: "char \<Rightarrow> char \<Rightarrow> bool" where
  "cont2 a b \<longleftrightarrow>
     (if (of_char a :: nat) = 0xE0 then 0xA0 else if (of_char a :: nat) = 0xF0 then 0x90 else 0x80)
       \<le> (of_char b :: nat) \<and>
     (of_char b :: nat) \<le>
       (if (of_char a :: nat) = 0xED then 0x9F else if (of_char a :: nat) = 0xF4 then 0x8F else 0xBF)"

definition plain :: "string \<Rightarrow> bool" where
  "plain s \<longleftrightarrow> list_all htmlSafeSet s"

definition emittedFields :: "field list \<Rightarrow> field list" where
  "emittedFields fs = filter (\<lambda>f. \<not> (omitEmpty f \<and> isEmptyValue (fieldValue f))) fs"

fun memberOf :: "field \<Rightarrow> string \<times> string \<times> jvalue" where
  "memberOf f =
     (name f,
      (case fieldValue f of
         VString s \<Rightarrow> appendString s
       | VInt i \<Rightarrow> FormatInt (sint i)
       | VTimePtr p \<Rightarrow> []),
      (case fieldValue f of
         VString s \<Rightarrow> JString (coerceUTF8 s)
       | VInt i \<Rightarrow> JNumber (sint i)
       | VTimePtr p \<Rightarrow> JNull))"

definition simpleField :: "field \<Rightarrow> bool" where
  "simpleField f \<longleftrightarrow> plain (name f) \<and> (case fieldValue f of VTimePtr p \<Rightarrow> False | _ \<Rightarrow> True)"

definition expirationText :: "ProcessCredential \<Rightarrow> string" where
  "expirationText c =
     (case ProcessCredential.Expiration c of None \<Rightarrow> [] | Some t \<Rightarrow> Format t RFC3339)"

definition members :: "ProcessCredential \<Rightarrow> (string \<times> string \<times> jvalue) list" where
  "members c =
     (if ProcessCredential.AccessKeyID c = [] then []
      else [(''AccessKeyId'', appendString (ProcessCredential.AccessKeyID c),
             JString (coerceUTF8 (ProcessCredential.AccessKeyID c)))]) @
     (if ProcessCredential.SecretAccessKey c = [] then []
      else [(''SecretAccessKey'', appendString (ProcessCredential.SecretAccessKey c),
             JString (coerceUTF8 (ProcessCredential.SecretAccessKey c)))]) @
     (if ProcessCredential.SessionToken c = [] then []
      else [(''SessionToken'', appendString (ProcessCredential.SessionToken c),
             JString (coerceUTF8 (ProcessCredential.SessionToken c)))]) @
     (if Version c = 0 then []
      else [(''Version'', FormatInt (sint (Version c)), JNumber (sint (Version c)))]) @
     [(''Expiration'', [CHR 0x22] @ expirationText c @ [CHR 0x22], JString (expirationText c))]"

definition zoneText :: "int \<Rightarrow> string" where
  "zoneText off =
     (if off = 0 then ''Z''
      else let zone = quo off 60
           in (if zone < 0 then ''-'' else ''+'') @
              appendInt (\<bar>zone\<bar> div 60) 2 @ '':'' @ appendInt (\<bar>zone\<bar> mod 60) 2)"

definition zoneRead :: "int \<Rightarrow> int" where
  "zoneRead off = (if off < 0 then - int (nat \<bar>off\<bar> div 60 * 60) else int (nat \<bar>off\<bar> div 60 * 60))"

definition readBack :: "Time \<Rightarrow> Time" where
  "readBack t = t\<lparr>nanosecond := 0, zoneOffset := zoneRead (zoneOffset t)\<rparr>"

definition time2023 :: Time where
  "time2023 = \<lparr>year = 2023, month = 6, day = 1, hour = 0, minute = 0, second = 0,
     nanosecond = 0, zoneOffset = 0\<rparr>"

subsection \<open>Facts about UTF-8 decoding\<close>

lemma Decode_Nil_iff: "snd (DecodeRuneInString s) = 0 \<longleftrightarrow> s = []"
  using DecodeRuneInString_size [of s] by (auto simp: DecodeRuneInString_def)

lemma first_ascii: "b < 0x80 \<Longrightarrow> first b = 0xF0"
  by (simp add: first_def)

lemma first_bad: "0x80 \<le> b \<and> b < 0xC2 \<or> 0xF5 \<le> b \<Longrightarrow> first b = 0xF1"
  by (auto simp: first_def)

lemma first_2: "0xC2 \<le> b \<Longrightarrow> b < 0xE0 \<Longrightarrow> first b = 0x02"
  by (simp add: first_def)

lemma first_3:
  "0xE0 \<le> b \<Longrightarrow> b < 0xF0 \<Longrightarrow>
   first b = (if b = 0xE0 then 0x13 else if b = 0xED then 0x23 else 0x03)"
  by (simp add: first_def)

lemma first_4:
  "0xF0 \<le> b \<Longrightarrow> b \<le> 0xF4 \<Longrightarrow>
   first b = (if b = 0xF0 then 0x34 else if b = 0xF4 then 0x44 else 0x04)"
  by (simp add: first_def)

lemma Decode_ascii:
  "(of_char a :: nat) < 0x80 \<Longrightarrow> DecodeRuneInString (a # t) = (of_char a, 1)"
  by (simp add: DecodeRuneInString_def first_ascii)

lemma Decode_bad:
  "0x80 \<le> (of_char a :: nat) \<and> (of_char a :: nat) < 0xC2 \<or> 0xF5 \<le> (of_char a :: nat) \<Longrightarrow>
   DecodeRuneInString (a # t) = (RuneError, 1)"
  by (simp add: DecodeRuneInString_def first_bad)

lemma Decode_2:
  assumes "0xC2 \<le> (of_char a :: nat)" "(of_char a :: nat) < 0xE0"
  shows "DecodeRuneInString (a # t) =
           (case t of
              b # _ \<Rightarrow> if cont b then ((of_char a mod 32) * 64 + of_char b mod 64, 2)
                        else (RuneError, 1)
            | [] \<Rightarrow> (RuneError, 1))"
  using assms
  by (cases t) (auto simp: DecodeRuneInString_def first_2 acceptRanges_def cont_def Let_def)

lemma Decode_3:
  assumes "0xE0 \<le> (of_char a :: nat)" "(of_char a :: nat) < 0xF0"
  shows "DecodeRuneInString (a # t) =
           (case t of
              b # c # _ \<Rightarrow>
                if cont2 a b \<and> cont c
                then ((of_char a mod 16) * 4096 + (of_char b mod 64) * 64 + of_char c mod 64, 3)
                else (RuneError, 1)
            | _ \<Rightarrow> (RuneError, 1))"
proof (cases t)
  case Nil
  with assms show ?thesis
    by (auto simp: DecodeRuneInString_def first_3 acceptRanges_def Let_def)
next
  case (Cons b u)
  show ?thesis
  proof (cases u)
    case Nil
    with Cons assms show ?thesis
      by (auto simp: DecodeRuneInString_def first_3 acceptRanges_def Let_def)
  next
    case (Cons c v)
    with \<open>t = b # u\<close> assms show ?thesis
      by (auto simp: DecodeRuneInString_def first_3 acceptRanges_def Let_def cont_def cont2_def)
  qed
qed

lemma Decode_4:
  assumes "0xF0 \<le> (of_char a :: nat)" "(of_char a :: nat) \<le> 0xF4"
  shows "DecodeRuneInString (a # t) =
           (case t of
              b # c # d # _ \<Rightarrow>
                if cont2 a b \<and> cont c \<and> cont d
                then ((of_char a mod 8) * 262144 + (of_char b mod 64) * 4096 +
                      (of_char c mod 64) * 64 + of_char d mod 64, 4)
                else (RuneError, 1)
            | _ \<Rightarrow> (RuneError, 1))"
proof -
  consider "t = []" | b where "t = [b]" | b c where "t = [b, c]"
    | b c d v where "t = b # c # d # v"
    by (metis list.exhaust)
  then show ?thesis
  proof cases
    case 1
    with assms show ?thesis
      by (auto simp: DecodeRuneInString_def first_4 acceptRanges_def Let_def)
  next
    case 2
    with assms show ?thesis
      by (auto simp: DecodeRuneInString_def first_4 acceptRanges_def Let_def)
  next
    case 3
    with assms show ?thesis
      by (auto simp: DecodeRuneInString_def first_4 acceptRanges_def Let_def)
  next
    case 4
    with assms show ?thesis
      by (auto simp: DecodeRuneInString_def first_4 acceptRanges_def Let_def cont_def cont2_def)
  qed
qed

lemma modsub:
  fixes A k m :: nat
  assumes "k * m \<le> A" "A < k * m + m"
  shows "A mod m = A - k * m"
proof -
  obtain x where x: "A = m * k + x" "x < m"
    using assms by (metis add.commute le_Suc_ex mult.commute nat_add_left_cancel_less)
  then show ?thesis by simp
qed

lemma m32: "(192::nat) \<le> A \<Longrightarrow> A < 224 \<Longrightarrow> A mod 32 = A - 192"
  using modsub [of 6 32 A] by simp

lemma m64: "(128::nat) \<le> B \<Longrightarrow> B < 192 \<Longrightarrow> B mod 64 = B - 128"
  using modsub [of 2 64 B] by simp

lemma m16: "(224::nat) \<le> A \<Longrightarrow> A < 240 \<Longrightarrow> A mod 16 = A - 224"
  using modsub [of 14 16 A] by simp

lemma m8: "(240::nat) \<le> A \<Longrightarrow> A < 248 \<Longrightarrow> A mod 8 = A - 240"
  using modsub [of 30 8 A] by simp

lemma dm:
  fixes q r n :: nat
  assumes "r < n"
  shows "(q * n + r) div n = q" "(q * n + r) mod n = r"
  using assms by simp_all

lemma split3:
  fixes x y z :: nat
  assumes "y < 64" "z < 64"
  shows "(x * 4096 + y * 64 + z) div 4096 = x" "(x * 4096 + y * 64 + z) div 64 mod 64 = y"
    "(x * 4096 + y * 64 + z) mod 64 = z"
proof -
  have e: "x * 4096 + y * 64 + z = (x * 64 + y) * 64 + z" by simp
  show "(x * 4096 + y * 64 + z) mod 64 = z"
    by (simp only: e dm(2) [OF assms(2)])
  have d: "(x * 4096 + y * 64 + z) div 64 = x * 64 + y"
    by (simp only: e dm(1) [OF assms(2)])
  show "(x * 4096 + y * 64 + z) div 64 mod 64 = y"
    by (simp only: d dm(2) [OF assms(1)])
  have "(x * 4096 + y * 64 + z) div 4096 = (x * 4096 + y * 64 + z) div 64 div 64"
    by (simp add: div_mult2_eq)
  also have "\<dots> = x"
    by (simp only: d dm(1) [OF assms(1)])
  finally show "(x * 4096 + y * 64 + z) div 4096 = x" .
qed

lemma split4:
  fixes x y z w :: nat
  assumes "y < 64" "z < 64" "w < 64"
  shows "(x * 262144 + y * 4096 + z * 64 + w) div 262144 = x"
    "(x * 262144 + y * 4096 + z * 64 + w) div 4096 mod 64 = y"
    "(x * 262144 + y * 4096 + z * 64 + w) div 64 mod 64 = z"
    "(x * 262144 + y * 4096 + z * 64 + w) mod 64 = w"
proof -
  have e: "x * 262144 + y * 4096 + z * 64 + w = (x * 4096 + y * 64 + z) * 64 + w" by simp
  show "(x * 262144 + y * 4096 + z * 64 + w) mod 64 = w"
    by (simp only: e dm(2) [OF assms(3)])
  have d1: "(x * 262144 + y * 4096 + z * 64 + w) div 64 = x * 4096 + y * 64 + z"
    by (simp only: e dm(1) [OF assms(3)])
  show "(x * 262144 + y * 4096 + z * 64 + w) div 64 mod 64 = z"
    by (simp only: d1 split3(3) [OF assms(1,2)])
  have "(x * 262144 + y * 4096 + z * 64 + w) div 4096 =
        (x * 262144 + y * 4096 + z * 64 + w) div 64 div 64"
    by (simp add: div_mult2_eq)
  also have "\<dots> = (x * 4096 + y * 64 + z) div 64" by (simp only: d1)
  finally have d2:
    "(x * 262144 + y * 4096 + z * 64 + w) div 4096 = (x * 4096 + y * 64 + z) div 64" .
  show "(x * 262144 + y * 4096 + z * 64 + w) div 4096 mod 64 = y"
    by (simp only: d2 split3(2) [OF assms(1,2)])
  have "(x * 262144 + y * 4096 + z * 64 + w) div 262144 =
        (x * 262144 + y * 4096 + z * 64 + w) div 64 div 4096"
    by (simp add: div_mult2_eq)
  also have "\<dots> = (x * 4096 + y * 64 + z) div 4096" by (simp only: d1)
  also have "\<dots> = x" by (rule split3(1) [OF assms(1,2)])
  finally show "(x * 262144 + y * 4096 + z * 64 + w) div 262144 = x" .
qed

lemma enc1: "A < 0x80 \<Longrightarrow> EncodeRune A = [char_of A]"
  by (simp add: EncodeRune_def)

lemma enc2:
  fixes A B :: nat
  assumes "194 \<le> A" "A < 224" "128 \<le> B" "B \<le> 191"
  shows "EncodeRune ((A mod 32) * 64 + B mod 64) = [char_of A, char_of B]"
proof -
  define x y where "x = A - 192" and "y = B - 128"
  have A: "A mod 32 = x" using assms m32 [of A] by (simp add: x_def)
  have B: "B mod 64 = y" using assms m64 [of B] by (simp add: y_def)
  have xy: "2 \<le> x" "x < 32" "y < 64" "192 + x = A" "128 + y = B"
    using assms by (simp_all add: x_def y_def)
  have r: "128 \<le> x * 64 + y" "x * 64 + y < 2048" using xy by linarith+
  show ?thesis
    unfolding A B using r xy by (simp add: EncodeRune_def dm)
qed

lemma enc3:
  fixes A B C :: nat
  assumes "224 \<le> A" "A < 240"
    "(if A = 224 then 160 else 128) \<le> B" "B \<le> (if A = 237 then 159 else 191)"
    "128 \<le> C" "C \<le> 191"
  shows "EncodeRune ((A mod 16) * 4096 + (B mod 64) * 64 + C mod 64) =
           [char_of A, char_of B, char_of C]"
proof -
  define x y z where "x = A - 224" and "y = B - 128" and "z = C - 128"
  have B128: "128 \<le> B" using assms(3) by (simp split: if_splits)
  have B191: "B \<le> 191" using assms(4) by (simp split: if_splits)
  have A: "A mod 16 = x" using assms m16 [of A] by (simp add: x_def)
  have B: "B mod 64 = y" using B128 B191 m64 [of B] by (simp add: y_def)
  have C: "C mod 64 = z" using assms m64 [of C] by (simp add: z_def)
  have xy: "x < 16" "y < 64" "z < 64" "224 + x = A" "128 + y = B" "128 + z = C"
    using assms B128 B191 by (simp_all add: x_def y_def z_def)
  have lo: "x = 0 \<Longrightarrow> 32 \<le> y" using assms(3) xy by (simp add: y_def split: if_splits)
  have hi: "x = 13 \<Longrightarrow> y \<le> 31" using assms(4) xy by (simp add: y_def split: if_splits)
  have r1: "2048 \<le> x * 4096 + y * 64 + z"
    using lo xy by (cases "x = 0") simp_all
  have r2: "x * 4096 + y * 64 + z < 65536" using xy by linarith
  have r3: "\<not> (55296 \<le> x * 4096 + y * 64 + z \<and> x * 4096 + y * 64 + z \<le> 57343)"
  proof -
    consider "x \<le> 12" | "x = 13" | "14 \<le> x" by linarith
    then show ?thesis
    proof cases
      case 1 then show ?thesis using xy by linarith
    next
      case 2 then show ?thesis using hi xy by simp
    next
      case 3 then show ?thesis using xy by linarith
    qed
  qed
  show ?thesis
    unfolding A B C using r1 r2 r3 xy by (auto simp: EncodeRune_def split3)
qed

lemma enc4:
  fixes A B C D :: nat
  assumes "240 \<le> A" "A \<le> 244"
    "(if A = 240 then 144 else 128) \<le> B" "B \<le> (if A = 244 then 143 else 191)"
    "128 \<le> C" "C \<le> 191" "128 \<le> D" "D \<le> 191"
  shows "EncodeRune ((A mod 8) * 262144 + (B mod 64) * 4096 + (C mod 64) * 64 + D mod 64) =
           [char_of A, char_of B, char_of C, char_of D]"
proof -
  define x y z w where "x = A - 240" and "y = B - 128" and "z = C - 128" and "w = D - 128"
  have B128: "128 \<le> B" using assms(3) by (simp split: if_splits)
  have B191: "B \<le> 191" using assms(4) by (simp split: if_splits)
  have A: "A mod 8 = x" using assms m8 [of A] by (simp add: x_def)
  have B: "B mod 64 = y" using B128 B191 m64 [of B] by (simp add: y_def)
  have C: "C mod 64 = z" using assms m64 [of C] by (simp add: z_def)
  have D: "D mod 64 = w" using assms m64 [of D] by (simp add: w_def)
  have xy: "x \<le> 4" "y < 64" "z < 64" "w < 64" "240 + x = A" "128 + y = B" "128 + z = C"
    "128 + w = D"
    using assms B128 B191 by (simp_all add: x_def y_def z_def w_def)
  have lo: "x = 0 \<Longrightarrow> 16 \<le> y" using assms(3) xy by (simp add: y_def split: if_splits)
  have hi: "x = 4 \<Longrightarrow> y \<le> 15" using assms(4) xy by (simp add: y_def split: if_splits)
  have r1: "65536 \<le> x * 262144 + y * 4096 + z * 64 + w"
    using lo xy by (cases "x = 0") simp_all
  have r2: "x * 262144 + y * 4096 + z * 64 + w \<le> 1114111"
  proof (cases "x = 4")
    case True then show ?thesis using hi xy by simp
  next
    case False then have "x \<le> 3" using xy by simp
    then show ?thesis using xy by linarith
  qed
  show ?thesis
    unfolding A B C D using r1 r2 xy by (simp add: EncodeRune_def split4)
qed

lemma byte_class:
  fixes A :: nat
  obtains (ascii) "A < 0x80"
  | (bad) "0x80 \<le> A \<and> A < 0xC2 \<or> 0xF5 \<le> A"
  | (two) "0xC2 \<le> A" "A < 0xE0"
  | (three) "0xE0 \<le> A" "A < 0xF0"
  | (four) "0xF0 \<le> A" "A \<le> 0xF4"
  by linarith

text \<open>What a successful decoding says about the bytes.\<close>

lemma Decode_valid:
  assumes d: "DecodeRuneInString (a # t) = (c, n)" and v: "\<not> (c = RuneError \<and> n = 1)"
  shows "n \<le> Suc (length t)"
    and "EncodeRune c = take n (a # t)"
    and "DecodeRuneInString (take 4 (take n (a # t) @ X)) = (c, n)"
proof -
  have "n \<le> Suc (length t) \<and> EncodeRune c = take n (a # t) \<and>
        DecodeRuneInString (take 4 (take n (a # t) @ X)) = (c, n)"
  proof (cases "of_char a :: nat" rule: byte_class)
    case ascii
    with d show ?thesis
      by (auto simp: Decode_ascii enc1)
  next
    case bad
    with d v show ?thesis
      by (simp add: Decode_bad)
  next
    case two
    show ?thesis
    proof (cases t)
      case Nil
      with d v two show ?thesis by (simp add: Decode_2)
    next
      case (Cons b u)
      with d v two have b: "cont b" and c: "c = (of_char a mod 32) * 64 + of_char b mod 64"
        and n: "n = 2"
        by (auto simp: Decode_2 split: if_splits)
      have "EncodeRune c = [a, b]"
        unfolding c using enc2 [of "of_char a" "of_char b"] two b by (simp add: cont_def)
      with Cons b two n c show ?thesis
        by (simp add: Decode_2)
    qed
  next
    case three
    consider "t = []" | b where "t = [b]" | b e u where "t = b # e # u"
      by (metis list.exhaust)
    then show ?thesis
    proof cases
      case 1
      with d v three show ?thesis by (simp add: Decode_3)
    next
      case 2
      with d v three show ?thesis by (simp add: Decode_3)
    next
      case 3
      with d v three have b: "cont2 a b" "cont e"
        and c: "c = (of_char a mod 16) * 4096 + (of_char b mod 64) * 64 + of_char e mod 64"
        and n: "n = 3"
        by (auto simp: Decode_3 split: if_splits)
      have "EncodeRune c = [a, b, e]"
        unfolding c using enc3 [of "of_char a" "of_char b" "of_char e"] three b
        by (auto simp: cont_def cont2_def split: if_splits)
      with 3 b three n c show ?thesis
        by (simp add: Decode_3)
    qed
  next
    case four
    consider "t = []" | b where "t = [b]" | b e where "t = [b, e]"
      | b e f u where "t = b # e # f # u"
      by (metis list.exhaust)
    then show ?thesis
    proof cases
      case 1
      with d v four show ?thesis by (simp add: Decode_4)
    next
      case 2
      with d v four show ?thesis by (simp add: Decode_4)
    next
      case 3
      with d v four show ?thesis by (simp add: Decode_4)
    next
      case 4
      with d v four have b: "cont2 a b" "cont e" "cont f"
        and c: "c = (of_char a mod 8) * 262144 + (of_char b mod 64) * 4096 +
                    (of_char e mod 64) * 64 + of_char f mod 64"
        and n: "n = 4"
        by (auto simp: Decode_4 split: if_splits)
      have "EncodeRune c = [a, b, e, f]"
        unfolding c using enc4 [of "of_char a" "of_char b" "of_char e" "of_char f"] four b
        by (auto simp: cont_def cont2_def split: if_splits)
      with 4 b four n c show ?thesis
        by (simp add: Decode_4)
    qed
  qed
  then show "n \<le> Suc (length t)"
    and "EncodeRune c = take n (a # t)"
    and "DecodeRuneInString (take 4 (take n (a # t) @ X)) = (c, n)"
    by blast+
qed

subsection \<open>Reading back an encoded string\<close>

lemma emit_Some: "emit x (Some (t, rest)) = Some (x @ t, rest)"
  by (simp add: emit_def)

lemma asb_safe:
  "(of_char b :: nat) < 0x80 \<Longrightarrow> htmlSafeSet b \<Longrightarrow>
   appendStringBody (b # bs) = b # appendStringBody bs"
  by simp

lemma asb_esc:
  "(of_char b :: nat) < 0x80 \<Longrightarrow> \<not> htmlSafeSet b \<Longrightarrow>
   appendStringBody (b # bs) = escapeByte b @ appendStringBody bs"
  by simp

lemma asb_bad:
  "\<not> (of_char b :: nat) < 0x80 \<Longrightarrow> DecodeRuneInString (take 4 (b # bs)) = (RuneError, 1) \<Longrightarrow>
   appendStringBody (b # bs) = CHR 0x5C # ''ufffd'' @ appendStringBody bs"
  by (simp add: Let_def)

lemma asb_sep:
  "\<not> (of_char b :: nat) < 0x80 \<Longrightarrow> DecodeRuneInString (take 4 (b # bs)) = (c, n) \<Longrightarrow>
   \<not> (c = RuneError \<and> n = 1) \<Longrightarrow> c = 0x2028 \<or> c = 0x2029 \<Longrightarrow>
   appendStringBody (b # bs) =
     CHR 0x5C # ''u202'' @ [hex (c mod 16)] @ appendStringBody (drop n (b # bs))"
  by (simp add: Let_def)

lemma asb_raw:
  "\<not> (of_char b :: nat) < 0x80 \<Longrightarrow> DecodeRuneInString (take 4 (b # bs)) = (c, n) \<Longrightarrow>
   \<not> (c = RuneError \<and> n = 1) \<Longrightarrow> \<not> (c = 0x2028 \<or> c = 0x2029) \<Longrightarrow>
   appendStringBody (b # bs) = take n (b # bs) @ appendStringBody (drop n (b # bs))"
  by (simp add: Let_def)

lemma coerce_bad:
  "DecodeRuneInString (take 4 (b # bs)) = (RuneError, 1) \<Longrightarrow>
   coerceUTF8 (b # bs) = [CHR 0xEF, CHR 0xBF, CHR 0xBD] @ coerceUTF8 bs"
  by (simp add: Let_def)

lemma coerce_ok:
  "DecodeRuneInString (take 4 (b # bs)) = (c, n) \<Longrightarrow> \<not> (c = RuneError \<and> n = 1) \<Longrightarrow>
   coerceUTF8 (b # bs) = take n (b # bs) @ coerceUTF8 (drop n (b # bs))"
  by (simp add: Let_def)

declare appendStringBody.simps [simp del] coerceUTF8.simps [simp del]

lemma coerce_ascii:
  "(of_char b :: nat) < 0x80 \<Longrightarrow> coerceUTF8 (b # bs) = b # coerceUTF8 bs"
  using coerce_ok [of b bs "of_char b" 1]
  by (simp add: Decode_ascii RuneError_def)

lemma EncodeRune_RuneError: "EncodeRune 0xFFFD = [CHR 0xEF, CHR 0xBF, CHR 0xBD]"
  by (simp add: EncodeRune_def char_of_eq_iff)

lemma escapeByte_unquote:
  assumes "(of_char b :: nat) < 0x80" "\<not> htmlSafeSet b"
  shows "unquoteBody (escapeByte b @ cs) = emit [b] (unquoteBody cs)"
proof -
  consider "b = CHR 0x5C" | "b = CHR 0x22" | "b = CHR 0x08" | "b = CHR 0x0C" | "b = CHR 0x0A"
    | "b = CHR 0x0D" | "b = CHR 0x09"
    | "b \<notin> {CHR 0x5C, CHR 0x22, CHR 0x08, CHR 0x0C, CHR 0x0A, CHR 0x0D, CHR 0x09}"
    by blast
  then show ?thesis
  proof cases
    case 8
    have d: "of_char b div 16 < (16::nat)" "of_char b mod 16 < (16::nat)"
      using assms(1) by simp_all
    have e: "escapeByte b = CHR 0x5C # CHR ''u'' # CHR ''0'' # CHR ''0'' #
               hex (of_char b div 16) # [hex (of_char b mod 16)]"
      using 8 by (simp add: escapeByte_def)
    have z: "hexVal (CHR ''0'') = Some 0" by (simp add: hexVal_def)
    have "unquoteBody (escapeByte b @ cs) = emit (EncodeRune (of_char b)) (unquoteBody cs)"
      unfolding e
      using unq_u [OF z z hexVal_hex [OF d(1)] hexVal_hex [OF d(2)], of "of_char b" cs] assms(1)
      by simp
    then show ?thesis using assms(1) by (simp add: enc1)
  qed (simp_all add: escapeByte_def unq_esc)
qed

lemma unquote_appendStringBody:
  "unquoteBody (appendStringBody s @ CHR 0x22 # rest) = Some (coerceUTF8 s, rest)"
proof (induction s rule: length_induct)
  case (1 s)
  then have IH: "\<And>u. length u < length s \<Longrightarrow>
      unquoteBody (appendStringBody u @ CHR 0x22 # rest) = Some (coerceUTF8 u, rest)"
    by blast
  show ?case
  proof (cases s)
    case Nil
    then show ?thesis by (simp add: unq_quote appendStringBody.simps coerceUTF8.simps)
  next
    case (Cons b bs)
    show ?thesis
    proof (cases "(of_char b :: nat) < 0x80")
      case True
      have step: "unquoteBody (appendStringBody (b # bs) @ CHR 0x22 # rest) =
                  emit [b] (unquoteBody (appendStringBody bs @ CHR 0x22 # rest))"
      proof (cases "htmlSafeSet b")
        case True
        then have "b \<noteq> CHR 0x5C" "b \<noteq> CHR 0x22" "0x20 \<le> (of_char b :: nat)"
          by (auto simp: htmlSafeSet_def)
        with True \<open>of_char b < 0x80\<close> show ?thesis
          by (simp add: asb_safe unq_plain)
      next
        case False
        with True \<open>of_char b < 0x80\<close> show ?thesis
          by (simp add: asb_esc escapeByte_unquote)
      qed
      show ?thesis
        unfolding Cons step using IH [of bs] Cons True
        by (simp add: coerce_ascii emit_Some)
    next
      case False
      obtain c n where d: "DecodeRuneInString (take 4 (b # bs)) = (c, n)"
        by fastforce
      then have d': "DecodeRuneInString (b # take 3 bs) = (c, n)" by simp
      show ?thesis
      proof (cases "c = RuneError \<and> n = 1")
        case True
        have f: "hexVal (CHR ''f'') = Some 15" and dd: "hexVal (CHR ''d'') = Some 13"
          by (simp_all add: hexVal_def)
        have "unquoteBody (appendStringBody (b # bs) @ CHR 0x22 # rest) =
              emit (EncodeRune 0xFFFD) (unquoteBody (appendStringBody bs @ CHR 0x22 # rest))"
          using asb_bad [OF False, of bs] d True unq_u [OF f f f dd, of "0xFFFD"]
          by simp
        with IH [of bs] Cons d True show ?thesis
          by (simp add: EncodeRune_RuneError emit_Some coerce_bad)
      next
        case valid: False
        note V = Decode_valid [OF d' valid]
        have n4: "n \<le> 4" using V(1) by simp
        have n1: "1 \<le> n" using d DecodeRuneInString_Cons_pos [of b "take 3 bs"] by simp
        have tk: "take n (b # take 3 bs) = take n (b # bs)"
          using n4 by (cases n) (simp_all add: min_def)
        have len: "n \<le> length (b # bs)" using V(1) by simp
        have enc: "EncodeRune c = take n (b # bs)" using V(2) tk by simp
        have shorter: "length (drop n (b # bs)) < length s"
          using n1 Cons by simp
        note IH' = IH [OF shorter]
        have co: "coerceUTF8 (b # bs) = take n (b # bs) @ coerceUTF8 (drop n (b # bs))"
          using coerce_ok [OF d valid] .
        show ?thesis
        proof (cases "c = 0x2028 \<or> c = 0x2029")
          case True
          have h2: "hexVal (CHR ''2'') = Some 2" and h0: "hexVal (CHR ''0'') = Some 0"
            by (simp_all add: hexVal_def)
          have lt: "c mod 16 < 16" by simp
          have cv: "c = ((2 * 16 + 0) * 16 + 2) * 16 + c mod 16"
            using True by auto
          have ns: "\<not> (0xD800 \<le> c \<and> c < 0xE000)" using True by auto
          have "unquoteBody (appendStringBody (b # bs) @ CHR 0x22 # rest) =
                emit (EncodeRune c)
                  (unquoteBody (appendStringBody (drop n (b # bs)) @ CHR 0x22 # rest))"
            using asb_sep [OF False d valid True]
              unq_u [OF h2 h0 h2 hexVal_hex [OF lt] cv ns]
            by simp
          then show ?thesis
            unfolding Cons using IH' enc co by (simp add: emit_Some)
        next
          case False
          let ?Y = "appendStringBody (drop n (b # bs)) @ CHR 0x22 # rest"
          have hd: "take n (b # bs) = b # take (n - 1) bs"
            using n1 by (simp add: take_Cons')
          have hi: "0x80 \<le> (of_char b :: nat)" using \<open>\<not> of_char b < 0x80\<close> by simp
          have dec: "DecodeRuneInString (take 4 (b # take (n - 1) bs @ ?Y)) = (c, n)"
            using V(3) [of ?Y] tk hd by simp
          have dr: "drop n (b # take (n - 1) bs @ ?Y) = ?Y"
            using len hd by (metis append_Cons append_eq_conv_conj length_take min.absorb2)
          have "unquoteBody (appendStringBody (b # bs) @ CHR 0x22 # rest) =
                unquoteBody (b # take (n - 1) bs @ ?Y)"
            using asb_raw [OF \<open>\<not> of_char b < 0x80\<close> d valid False] hd by simp
          also have "\<dots> = emit (EncodeRune c) (unquoteBody ?Y)"
            using unq_hi [OF hi, of "take (n - 1) bs @ ?Y"] dec dr
            by (simp del: take_Suc_Cons drop_Suc_Cons take_append drop_append)
          finally show ?thesis
            unfolding Cons using IH' enc co by (simp add: emit_Some)
        qed
      qed
    qed
  qed
qed

subsection \<open>Reading back an encoded number\<close>

lemma of_char_digit: "d < 10 \<Longrightarrow> (of_char (digit d) :: nat) = 48 + d"
proof -
  assume "d < 10"
  then have "d \<in> set [0..<10]" by simp
  then show ?thesis
    by (auto simp: upt_rec digit_def)
qed

lemma isDigit_digit: "d < 10 \<Longrightarrow> isDigit (digit d)"
  by (simp add: isDigit_def of_char_digit)

lemma utoa_not_Nil: "utoa u \<noteq> []"
  by (subst utoa.simps) simp

lemma utoa_digits: "c \<in> set (utoa n) \<Longrightarrow> isDigit c"
proof (induction n arbitrary: c rule: utoa.induct)
  case (1 u)
  show ?case
  proof (cases "u < 10")
    case True
    with "1.prems" show ?thesis
      by (subst (asm) utoa.simps) (simp add: isDigit_digit)
  next
    case False
    with "1.prems" have "c \<in> set (utoa (u div 10)) \<or> c = digit (u mod 10)"
      by (subst (asm) utoa.simps) auto
    with "1.IH" False show ?thesis
      by (auto simp: isDigit_digit)
  qed
qed

lemma digitsVal_snoc: "digitsVal (ds @ [c]) = digitsVal ds * 10 + (of_char c - 48)"
  by (simp add: digitsVal_def)

lemma digitsVal_utoa: "digitsVal (utoa n) = n"
proof (induction n rule: utoa.induct)
  case (1 u)
  show ?case
  proof (cases "u < 10")
    case True
    then show ?thesis
      by (subst utoa.simps) (simp add: digitsVal_def of_char_digit)
  next
    case False
    then have "digitsVal (utoa u) = digitsVal (utoa (u div 10)) * 10 + u mod 10"
      by (subst utoa.simps) (simp add: digitsVal_snoc of_char_digit)
    with "1.IH" False show ?thesis by simp
  qed
qed

lemma hd_utoa_zero: "hd (utoa n) = CHR ''0'' \<Longrightarrow> n = 0"
proof (induction n rule: utoa.induct)
  case (1 u)
  show ?case
  proof (cases "u < 10")
    case True
    with "1.prems" have "digit u = CHR ''0''"
      by (subst (asm) utoa.simps) simp
    with True show ?thesis
      using of_char_digit [of u] by simp
  next
    case False
    with "1.prems" have "hd (utoa (u div 10)) = CHR ''0''"
      by (subst (asm) utoa.simps) (simp add: utoa_not_Nil)
    with "1.IH" False have "u div 10 = 0" by simp
    with False show ?thesis by simp
  qed
qed

lemma utoa_zero: "utoa 0 = ''0''"
  by (subst utoa.simps) (simp add: digit_def)

lemma span_utoa:
  assumes "rest = [] \<or> \<not> isDigit (hd rest)"
  shows "takeWhile isDigit (utoa n @ rest) = utoa n"
    and "dropWhile isDigit (utoa n @ rest) = rest"
proof -
  have all: "\<forall>c \<in> set (utoa n). isDigit c" by (simp add: utoa_digits)
  have r: "takeWhile isDigit rest = []" "dropWhile isDigit rest = rest"
    using assms by (cases rest; simp)+
  show "takeWhile isDigit (utoa n @ rest) = utoa n"
    using all r by (simp add: takeWhile_append2)
  show "dropWhile isDigit (utoa n @ rest) = rest"
    using all r by (simp add: dropWhile_append2)
qed

lemma readNumber_utoa:
  assumes "rest = [] \<or> (\<not> isDigit (hd rest) \<and> hd rest \<notin> {CHR ''.'', CHR ''e'', CHR ''E''})"
  shows "readNumber (utoa n @ rest) = Some (int n, rest)"
proof -
  have nd: "rest = [] \<or> \<not> isDigit (hd rest)" using assms by blast
  have h: "hd (utoa n) \<noteq> CHR ''-''"
    using utoa_digits [of "hd (utoa n)" n] utoa_not_Nil [of n]
    by (auto simp: isDigit_def)
  have one: "hd (utoa n) = CHR ''0'' \<Longrightarrow> length (utoa n) = 1"
    using hd_utoa_zero [of n] by (auto simp: utoa_zero)
  show ?thesis
    using assms h one utoa_not_Nil [of n]
    by (auto simp: readNumber_def Let_def span_utoa [OF nd] digitsVal_utoa)
qed

lemma readNumber_FormatInt:
  assumes "rest = [] \<or> (\<not> isDigit (hd rest) \<and> hd rest \<notin> {CHR ''.'', CHR ''e'', CHR ''E''})"
  shows "readNumber (FormatInt i @ rest) = Some (i, rest)"
proof (cases "i < 0")
  case False
  then show ?thesis
    using readNumber_utoa [OF assms, of "nat i"] by (simp add: FormatInt_def)
next
  case True
  have nd: "rest = [] \<or> \<not> isDigit (hd rest)" using assms by blast
  have one: "hd (utoa (nat (- i))) = CHR ''0'' \<Longrightarrow> length (utoa (nat (- i))) = 1"
    using hd_utoa_zero [of "nat (- i)"] by (auto simp: utoa_zero)
  show ?thesis
    using True assms one utoa_not_Nil [of "nat (- i)"]
    by (auto simp: readNumber_def FormatInt_def Let_def span_utoa [OF nd] digitsVal_utoa)
qed

subsection \<open>Reading back an encoded struct\<close>

lemma htmlSafeSet_ascii: "htmlSafeSet c \<Longrightarrow> (of_char c :: nat) < 0x80"
  by (simp add: htmlSafeSet_def)

lemma plain_appendStringBody: "plain s \<Longrightarrow> appendStringBody s = s"
  by (induction s) (simp_all add: plain_def appendStringBody.simps(1) asb_safe htmlSafeSet_ascii)

lemma plain_coerceUTF8: "plain s \<Longrightarrow> coerceUTF8 s = s"
  by (induction s) (simp_all add: plain_def coerceUTF8.simps(1) coerce_ascii htmlSafeSet_ascii)

lemma plain_HTMLEscape: "plain s \<Longrightarrow> concat (map HTMLEscapeByte s) = s"
  by (induction s) (auto simp: plain_def HTMLEscapeByte_def htmlSafeSet_def)

lemma unquote_plain: "plain k \<Longrightarrow> unquoteBody (k @ CHR 0x22 # rest) = Some (k, rest)"
  using unquote_appendStringBody [of k rest]
  by (simp add: plain_appendStringBody plain_coerceUTF8)

lemma readValue_string:
  "readValue (appendString s @ rest) = Some (appendString s, JString (coerceUTF8 s), rest)"
  by (simp add: readValue_def appendString_def unquote_appendStringBody)

lemma FormatInt_not_Nil: "FormatInt i \<noteq> []"
  by (simp add: FormatInt_def utoa_not_Nil)

lemma FormatInt_hd:
  "hd (FormatInt i) \<noteq> CHR 0x22" "take 4 (FormatInt i @ rest) \<noteq> ''null''"
proof -
  have d: "isDigit (hd (utoa n))" for n
    using utoa_digits [of "hd (utoa n)" n] utoa_not_Nil [of n] by simp
  have h: "hd (FormatInt i) = CHR ''-'' \<or> isDigit (hd (FormatInt i))"
    using d by (simp add: FormatInt_def utoa_not_Nil)
  then show "hd (FormatInt i) \<noteq> CHR 0x22"
    by (auto simp: isDigit_def)
  from h have "hd (FormatInt i) \<noteq> CHR ''n''"
    by (auto simp: isDigit_def)
  then show "take 4 (FormatInt i @ rest) \<noteq> ''null''"
    using FormatInt_not_Nil [of i] by (cases "FormatInt i") auto
qed

lemma readValue_int:
  assumes "rest = [] \<or> (\<not> isDigit (hd rest) \<and> hd rest \<notin> {CHR ''.'', CHR ''e'', CHR ''E''})"
  shows "readValue (FormatInt i @ rest) = Some (FormatInt i, JNumber i, rest)"
proof -
  obtain c cs where f: "FormatInt i = c # cs"
    using FormatInt_not_Nil [of i] by (cases "FormatInt i") auto
  have c: "c \<noteq> CHR 0x22" using FormatInt_hd(1) [of i] f by simp
  have n: "take 4 (c # cs @ rest) \<noteq> ''null''" using FormatInt_hd(2) [of i rest] f by simp
  have r: "readNumber (c # cs @ rest) = Some (i, rest)"
    using readNumber_FormatInt [OF assms, of i] f by simp
  show ?thesis
    unfolding f using c n r by (simp add: readValue_def)
qed

lemma structEncode_read:
  assumes "list_all simpleField fs"
  shows "\<exists>T. structEncode (CHR '','') fs = Inr T \<and>
           (if emittedFields fs = [] then T = ''}''
            else \<exists>M. T = CHR '','' # M \<and> readMembers M = Some (map memberOf (emittedFields fs)))"
  using assms
proof (induction fs)
  case Nil
  then show ?case by (simp add: emittedFields_def)
next
  case (Cons f fs)
  then obtain T where T: "structEncode (CHR '','') fs = Inr T"
    and sh: "if emittedFields fs = [] then T = ''}''
             else \<exists>M. T = CHR '','' # M \<and> readMembers M = Some (map memberOf (emittedFields fs))"
    by auto
  show ?case
  proof (cases "omitEmpty f \<and> isEmptyValue (fieldValue f)")
    case True
    have em: "emittedFields (f # fs) = emittedFields fs"
      using True by (simp add: emittedFields_def)
    have enc: "structEncode (CHR '','') (f # fs) = Inr T"
      using True T by simp
    show ?thesis
      unfolding em enc using sh by simp
  next
    case False
    from Cons.prems have pl: "plain (name f)" and sf: "simpleField f" by (simp_all add: simpleField_def)
    have Tstart: "T \<noteq> [] \<and> \<not> isDigit (hd T) \<and> hd T \<notin> {CHR ''.'', CHR ''e'', CHR ''E''}"
      using sh by (auto simp: isDigit_def split: if_splits)
    obtain b where b: "encodeValue (fieldValue f) = Inr b"
      and rv: "readValue (b @ T) = Some (fst (snd (memberOf f)), snd (snd (memberOf f)), T)"
    proof (cases "fieldValue f")
      case (VString s)
      then show ?thesis using that [of "appendString s"]
        by (simp add: encodeValue_def readValue_string)
    next
      case (VInt i)
      then show ?thesis using that [of "FormatInt (sint i)"] Tstart
        by (simp add: encodeValue_def readValue_int)
    next
      case (VTimePtr p)
      with sf show ?thesis by (simp add: simpleField_def)
    qed
    let ?M = "nameEscHTML f @ b @ T"
    have enc: "structEncode (CHR '','') (f # fs) = Inr (CHR '','' # ?M)"
      using False T b by simp
    have nm: "nameEscHTML f = CHR 0x22 # name f @ CHR 0x22 # [CHR '':'']"
      using pl by (simp add: nameEscHTML_def plain_HTMLEscape)
    have uq: "unquoteBody (name f @ CHR 0x22 # CHR '':'' # b @ T) = Some (name f, CHR '':'' # b @ T)"
      using unquote_plain [OF pl] .
    have rd: "readMembers ?M = Some (memberOf f # map memberOf (emittedFields fs))"
    proof (cases "emittedFields fs = []")
      case True
      with sh have "T = ''}''" by simp
      with rv uq nm True show ?thesis
        by (subst readMembers.simps) simp
    next
      case False
      with sh obtain M where "T = CHR '','' # M"
        "readMembers M = Some (map memberOf (emittedFields fs))" by auto
      with rv uq nm show ?thesis
        by (subst readMembers.simps) simp
    qed
    have em: "emittedFields (f # fs) = f # emittedFields fs"
      using False by (simp add: emittedFields_def)
    show ?thesis
      unfolding enc em using rd by simp
  qed
qed

lemma structEncode_first:
  "structEncode (CHR ''{'') fs =
     (case structEncode (CHR '','') fs of
        Inl e \<Rightarrow> Inl e
      | Inr T \<Rightarrow> Inr (if emittedFields fs = [] then ''{}'' else CHR ''{'' # tl T))"
  by (induction fs) (auto simp: emittedFields_def split: sum.splits)

lemma json_read:
  assumes "list_all simpleField fs"
  shows "\<exists>doc. structEncode (CHR ''{'') fs = Inr doc \<and>
           readObject doc = Some (map memberOf (emittedFields fs))"
proof -
  from structEncode_read [OF assms] obtain T where T: "structEncode (CHR '','') fs = Inr T"
    and sh: "if emittedFields fs = [] then T = ''}''
             else \<exists>M. T = CHR '','' # M \<and> readMembers M = Some (map memberOf (emittedFields fs))"
    by auto
  show ?thesis
  proof (cases "emittedFields fs = []")
    case True
    then show ?thesis using T by (simp add: structEncode_first readObject_def)
  next
    case False
    with sh obtain M where M: "T = CHR '','' # M"
      "readMembers M = Some (map memberOf (emittedFields fs))" by auto
    have "M \<noteq> ''}''"
      using M(2) by (auto simp: readMembers.simps)
    with False T M show ?thesis
      by (simp add: structEncode_first readObject_def)
  qed
qed

section \<open>The document written by MarshalJSON\<close>

lemma typeFields_eq:
  "typeFields v =
     [\<lparr>name = ''AccessKeyId'', tag = True, index = [0, 0], omitEmpty = True,
        fieldValue = VString (ProcessCredential.AccessKeyID (Alias v))\<rparr>,
      \<lparr>name = ''SecretAccessKey'', tag = True, index = [0, 1], omitEmpty = True,
        fieldValue = VString (ProcessCredential.SecretAccessKey (Alias v))\<rparr>,
      \<lparr>name = ''SessionToken'', tag = True, index = [0, 2], omitEmpty = True,
        fieldValue = VString (ProcessCredential.SessionToken (Alias v))\<rparr>,
      \<lparr>name = ''Version'', tag = True, index = [0, 4], omitEmpty = True,
        fieldValue = VInt (Version (Alias v))\<rparr>,
      \<lparr>name = ''Expiration'', tag = True, index = [1], omitEmpty = False,
        fieldValue = VString (obj.Expiration v)\<rparr>]"
  by (simp add: typeFields_def scanFields_def sortBy_def byNameLess_def byIndexLess_def
      dominantField_def)

lemma appendInt_not_Nil: "appendInt x w \<noteq> []"
  by (simp add: appendInt_def Let_def utoa_not_Nil)

lemma Format_not_Nil: "Format t RFC3339 \<noteq> []"
  by (simp add: appendFormatRFC3339_def appendInt_not_Nil)

lemma MarshalJSON_json_Marshal:
  "MarshalJSON c = json_Marshal \<lparr>Alias = c, Expiration = expirationText c\<rparr>"
  by (simp add: MarshalJSON_def expirationText_def Let_def Format_not_Nil split: option.splits)

lemma plain_append: "plain (xs @ ys) \<longleftrightarrow> plain xs \<and> plain ys"
  by (simp add: plain_def)

lemma isDigit_htmlSafe: "isDigit c \<Longrightarrow> htmlSafeSet c"
  by (auto simp: isDigit_def htmlSafeSet_def)

lemma plain_utoa: "plain (utoa n)"
  unfolding plain_def list_all_iff using utoa_digits isDigit_htmlSafe by blast

lemma plain_Nil: "plain []"
  by (simp add: plain_def)

lemma plain_Cons: "plain (c # cs) \<longleftrightarrow> htmlSafeSet c \<and> plain cs"
  by (simp add: plain_def)

lemma plain_zeros: "plain (replicate n (CHR ''0''))"
  by (simp add: plain_def list_all_iff htmlSafeSet_def)

lemma plain_appendInt: "plain (appendInt x w)"
  by (simp add: appendInt_def Let_def plain_append plain_utoa plain_zeros plain_Cons plain_Nil
      htmlSafeSet_def)

lemma plain_appendFormat: "plain (appendFormatRFC3339 t False)"
  by (simp add: appendFormatRFC3339_def Let_def plain_append plain_appendInt plain_Cons plain_Nil
      htmlSafeSet_def)

lemma plain_Format: "plain (Format t RFC3339)"
  by (simp add: plain_appendFormat)

lemma plain_expirationText: "plain (expirationText c)"
  by (cases "ProcessCredential.Expiration c")
    (simp_all add: expirationText_def plain_appendFormat plain_Nil)

lemma MarshalJSON_document:
  "\<exists>doc. MarshalJSON c = Inr doc \<and> readObject doc = Some (members c)"
proof -
  let ?fs = "typeFields \<lparr>Alias = c, Expiration = expirationText c\<rparr>"
  have "list_all simpleField ?fs"
    by (simp add: typeFields_eq simpleField_def plain_def htmlSafeSet_def)
  from json_read [OF this] obtain doc where doc: "structEncode (CHR ''{'') ?fs = Inr doc"
    and rd: "readObject doc = Some (map memberOf (emittedFields ?fs))"
    by blast
  have "map memberOf (emittedFields ?fs) = members c"
    by (simp add: typeFields_eq emittedFields_def members_def isEmptyValue_def appendString_def
        plain_appendStringBody plain_coerceUTF8 plain_expirationText)
  with doc rd show ?thesis
    by (simp add: MarshalJSON_json_Marshal json_Marshal_def)
qed

lemma structEncode_last:
  assumes "structEncode next (fs @ [f]) = Inr doc" "\<not> omitEmpty f"
    "encodeValue (fieldValue f) = Inr b"
  shows "\<exists>pre. doc = pre @ nameEscHTML f @ b @ ''}''"
  using assms
proof (induction fs arbitrary: "next" doc)
  case Nil
  then show ?case by auto
next
  case (Cons g fs)
  show ?case
  proof (cases "omitEmpty g \<and> isEmptyValue (fieldValue g)")
    case True
    with Cons show ?thesis by simp
  next
    case False
    with Cons.prems obtain bg rest where "encodeValue (fieldValue g) = Inr bg"
      "structEncode (CHR '','') (fs @ [f]) = Inr rest" "doc = next # nameEscHTML g @ bg @ rest"
      by (auto split: sum.splits)
    with Cons.IH [of "CHR '',''" rest] Cons.prems(2,3) show ?thesis
      by (metis append.assoc append_Cons)
  qed
qed

lemma MarshalJSON_ends:
  assumes "MarshalJSON c = Inr doc"
  shows "\<exists>pre. doc = pre @ [CHR 0x22] @ ''Expiration'' @ [CHR 0x22] @ '':'' @
                      [CHR 0x22] @ expirationText c @ [CHR 0x22] @ ''}''"
proof -
  let ?f = "\<lparr>name = ''Expiration'', tag = True, index = [1], omitEmpty = False,
        fieldValue = VString (expirationText c)\<rparr>"
  have n: "nameEscHTML ?f = [CHR 0x22] @ ''Expiration'' @ [CHR 0x22] @ '':''"
    by (simp add: nameEscHTML_def HTMLEscapeByte_def)
  have b: "encodeValue (fieldValue ?f) = Inr ([CHR 0x22] @ expirationText c @ [CHR 0x22])"
    by (simp add: encodeValue_def appendString_def plain_appendStringBody plain_expirationText)
  obtain fs where fs: "typeFields \<lparr>Alias = c, Expiration = expirationText c\<rparr> = fs @ [?f]"
    by (simp add: typeFields_eq)
  from assms have "structEncode (CHR ''{'') (fs @ [?f]) = Inr doc"
    by (simp add: MarshalJSON_json_Marshal json_Marshal_def fs)
  from structEncode_last [OF this _ b] show ?thesis
    unfolding n by simp
qed

section \<open>Reading a formatted timestamp back\<close>

lemma digitsVal_zeros: "digitsVal (replicate j (CHR ''0'') @ ds) = digitsVal ds"
proof -
  have "foldl (\<lambda>v c. v * 10 + (of_char c - 48)) 0 (replicate j (CHR ''0'')) = (0::nat)"
    by (induction j) simp_all
  then show ?thesis by (simp add: digitsVal_def)
qed

lemma length_utoa: "n < 10 ^ k \<Longrightarrow> 0 < k \<Longrightarrow> length (utoa n) \<le> k"
proof (induction n arbitrary: k rule: utoa.induct)
  case (1 u)
  show ?case
  proof (cases "u < 10")
    case True
    with "1.prems" show ?thesis by (subst utoa.simps) simp
  next
    case False
    then obtain j where k: "k = Suc j"
      using "1.prems" by (cases k) simp_all
    have "0 < j"
      using False "1.prems" k by (cases j) simp_all
    moreover have "u div 10 < 10 ^ j"
      using "1.prems" k by (simp add: less_mult_imp_div_less mult.commute)
    ultimately have "length (utoa (u div 10)) \<le> j"
      using "1.IH" [OF False] by simp
    with False k show ?thesis by (subst utoa.simps) simp
  qed
qed

lemma appendInt_field:
  assumes "0 \<le> x" "nat x < 10 ^ w" "0 < w"
  shows "length (appendInt x w) = w" "list_all isDigit (appendInt x w)"
    "digitsVal (appendInt x w) = nat x"
proof -
  have l: "length (utoa (nat x)) \<le> w" using assms length_utoa by simp
  have a: "appendInt x w = replicate (w - length (utoa (nat x))) (CHR ''0'') @ utoa (nat x)"
    using assms by (simp add: appendInt_def Let_def)
  show "length (appendInt x w) = w" using l by (simp add: a)
  have "isDigit (CHR ''0'')" by (simp add: isDigit_def)
  then show "list_all isDigit (appendInt x w)"
    by (auto simp: a list_all_iff utoa_digits)
  show "digitsVal (appendInt x w) = nat x"
    by (simp add: a digitsVal_zeros digitsVal_utoa)
qed

lemma quo_60:
  "quo off 60 = (if off < 0 then - int (nat \<bar>off\<bar> div 60) else int (nat \<bar>off\<bar> div 60))"
  by (auto simp: quo_def zdiv_int sgn_if)

lemma len2: "length xs = 2 \<Longrightarrow> \<exists>a b. xs = [a, b]"
  by (cases xs; cases "tl xs") auto

lemma len4: "length xs = 4 \<Longrightarrow> \<exists>a b c d. xs = [a, b, c, d]"
proof -
  assume "length xs = 4"
  then have "length xs = Suc (Suc (Suc (Suc 0)))" by simp
  then show ?thesis by (auto simp: length_Suc_conv)
qed

lemma appendInt_two:
  assumes "0 \<le> x" "x \<le> 99"
  obtains a b where "appendInt x 2 = [a, b]" "isDigit a" "isDigit b" "digitsVal [a, b] = nat x"
proof -
  have n: "nat x < 10 ^ 2" using assms by simp
  from appendInt_field [OF assms(1) n] have
    f: "length (appendInt x 2) = 2" "list_all isDigit (appendInt x 2)"
      "digitsVal (appendInt x 2) = nat x"
    by simp_all
  from len2 [OF f(1)] obtain a b where e: "appendInt x 2 = [a, b]" by blast
  with f show ?thesis using that [of a b] by simp
qed

lemma appendInt_four:
  assumes "0 \<le> x" "x \<le> 9999"
  obtains a b c d where "appendInt x 4 = [a, b, c, d]" "isDigit a" "isDigit b" "isDigit c"
    "isDigit d" "digitsVal [a, b, c, d] = nat x"
proof -
  have n: "nat x < 10 ^ 4" using assms by simp
  from appendInt_field [OF assms(1) n] have
    f: "length (appendInt x 4) = 4" "list_all isDigit (appendInt x 4)"
      "digitsVal (appendInt x 4) = nat x"
    by simp_all
  from len4 [OF f(1)] obtain a b c d where e: "appendInt x 4 = [a, b, c, d]" by blast
  with f show ?thesis using that [of a b c d] by simp
qed

text \<open>The zone as written: sign, hours and minutes of the offset in whole minutes.\<close>

lemma zoneText_chars:
  assumes "off \<noteq> 0" "\<bar>off\<bar> < 360000"
  obtains h1 h2 m1 m2 where
    "zoneText off = (if off \<le> - 60 then CHR ''-'' else CHR ''+'') # h1 # h2 # CHR '':'' # [m1, m2]"
    "isDigit h1" "isDigit h2" "digitsVal [h1, h2] = nat \<bar>off\<bar> div 60 div 60"
    "isDigit m1" "isDigit m2" "digitsVal [m1, m2] = nat \<bar>off\<bar> div 60 mod 60"
proof -
  define z where "z = nat \<bar>off\<bar> div 60"
  define hr where "hr = z div 60"
  define mm where "mm = z mod 60"
  have "nat \<bar>off\<bar> < 6000 * 60" using assms by simp
  then have zl: "z < 100 * 60" unfolding z_def by (simp add: less_mult_imp_div_less)
  have z0: "0 < z \<longleftrightarrow> off \<le> - 60 \<or> 60 \<le> off"
    unfolding z_def by (auto simp: div_greater_zero_iff)
  have q: "quo off 60 = (if off < 0 then - int z else int z)"
    unfolding z_def by (rule quo_60)
  have az: "\<bar>quo off 60\<bar> = int z" "quo off 60 < 0 \<longleftrightarrow> off \<le> - 60"
    using z0 unfolding q by auto
  have "hr < 100" using zl unfolding hr_def by (simp add: less_mult_imp_div_less)
  then have hh: "int hr \<le> 99" by simp
  have "mm < 60" unfolding mm_def by simp
  then have m9: "int mm \<le> 99" by simp
  obtain h1 h2 where H: "appendInt (int hr) 2 = [h1, h2]" "isDigit h1" "isDigit h2"
      "digitsVal [h1, h2] = hr"
    using appendInt_two [of "int hr"] hh by auto
  obtain m1 m2 where M: "appendInt (int mm) 2 = [m1, m2]" "isDigit m1" "isDigit m2"
      "digitsVal [m1, m2] = mm"
    using appendInt_two [of "int mm"] m9 by auto
  have d: "int z div 60 = int hr" "int z mod 60 = int mm"
    by (simp_all add: hr_def mm_def zdiv_int zmod_int)
  have zt: "zoneText off = (if off \<le> - 60 then CHR ''-'' else CHR ''+'') # h1 # h2 # CHR '':'' # [m1, m2]"
    using assms(1) by (simp add: zoneText_def Let_def az d H(1) M(1))
  show ?thesis
    by (rule that [OF zt H(2) H(3) H(4) [unfolded hr_def z_def] M(2) M(3)
          M(4) [unfolded mm_def z_def]])
qed

lemma zoneRead_minutes:
  "zoneRead off =
     (if off \<le> - 60 then - int ((nat \<bar>off\<bar> div 60 div 60 * 60 + nat \<bar>off\<bar> div 60 mod 60) * 60)
      else int ((nat \<bar>off\<bar> div 60 div 60 * 60 + nat \<bar>off\<bar> div 60 mod 60) * 60))"
proof -
  define z where "z = nat \<bar>off\<bar> div 60"
  have e: "z div 60 * 60 + z mod 60 = z" by simp
  have z0: "off < 0 \<Longrightarrow> \<not> off \<le> - 60 \<Longrightarrow> z = 0"
    unfolding z_def by simp
  have "zoneRead off = (if off < 0 then - int (z * 60) else int (z * 60))"
    by (simp add: zoneRead_def z_def)
  also have "\<dots> = (if off \<le> - 60 then - int (z * 60) else int (z * 60))"
    using z0 by (cases "off < 0"; cases "off \<le> - 60") simp_all
  finally show ?thesis
    unfolding z_def [symmetric] e .
qed

lemma parseZone_zoneText:
  assumes "\<bar>off\<bar> < 86400"
  shows "parseZone (zoneText off) = Some (zoneRead off)"
proof (cases "off = 0")
  case True
  then show ?thesis by (simp add: zoneText_def parseZone_def zoneRead_def)
next
  case False
  define hr where "hr = nat \<bar>off\<bar> div 60 div 60"
  define mm where "mm = nat \<bar>off\<bar> div 60 mod 60"
  from assms have "\<bar>off\<bar> < 360000" by simp
  from zoneText_chars [OF False this] obtain h1 h2 m1 m2 where
    c: "zoneText off = (if off \<le> - 60 then CHR ''-'' else CHR ''+'') # h1 # h2 # CHR '':'' # [m1, m2]"
      "isDigit h1" "isDigit h2" "digitsVal [h1, h2] = hr"
      "isDigit m1" "isDigit m2" "digitsVal [m1, m2] = mm"
    unfolding hr_def mm_def by blast
  have "nat \<bar>off\<bar> < 24 * 60 * 60" using assms by simp
  then have "hr < 24"
    unfolding hr_def by (simp add: less_mult_imp_div_less)
  then have hh: "\<not> 23 < hr" by simp
  have "mm < 60" unfolding mm_def by simp
  then have m9: "\<not> 59 < mm" by simp
  have zr: "zoneRead off =
      (if off \<le> - 60 then - int ((hr * 60 + mm) * 60) else int ((hr * 60 + mm) * 60))"
    unfolding hr_def mm_def by (rule zoneRead_minutes)
  show ?thesis
    unfolding c(1) zr parseZone_def parseUint_def
    by (simp add: c(2-7) hh m9)
qed

lemma parseZone_zoneText_day:
  assumes "86400 \<le> \<bar>off\<bar>" "\<bar>off\<bar> < 360000"
  shows "parseZone (zoneText off) = None"
proof -
  define hr where "hr = nat \<bar>off\<bar> div 60 div 60"
  define mm where "mm = nat \<bar>off\<bar> div 60 mod 60"
  from assms have nz: "off \<noteq> 0" by auto
  from zoneText_chars [OF nz assms(2)] obtain h1 h2 m1 m2 where
    c: "zoneText off = (if off \<le> - 60 then CHR ''-'' else CHR ''+'') # h1 # h2 # CHR '':'' # [m1, m2]"
      "isDigit h1" "isDigit h2" "digitsVal [h1, h2] = hr"
      "isDigit m1" "isDigit m2" "digitsVal [m1, m2] = mm"
    unfolding hr_def mm_def by blast
  have "86400 \<le> nat \<bar>off\<bar>" using assms(1) by simp
  from div_le_mono [OF this, of 60] have "1440 \<le> nat \<bar>off\<bar> div 60" by simp
  from div_le_mono [OF this, of 60] have "24 \<le> hr" unfolding hr_def by simp
  then have hh: "23 < hr" by simp
  show ?thesis
    unfolding c(1) parseZone_def parseUint_def
    by (simp add: c(2-7) hh)
qed

lemma getnum_two:
  "isDigit a \<Longrightarrow> isDigit b \<Longrightarrow> getnum (a # b # r) fx = Some (digitsVal [a, b], r)"
  by (simp add: getnum_def isDigitAt_def digitsVal_def)

lemma parseColonTZ_zoneText:
  assumes "\<bar>off\<bar> < 90000"
  shows "parseColonTZ (zoneText off) = Some (zoneRead off, [])"
proof (cases "off = 0")
  case True
  then show ?thesis by (simp add: zoneText_def parseColonTZ_def zoneRead_def)
next
  case False
  define hr where "hr = nat \<bar>off\<bar> div 60 div 60"
  define mm where "mm = nat \<bar>off\<bar> div 60 mod 60"
  from assms have "\<bar>off\<bar> < 360000" by simp
  from zoneText_chars [OF False this] obtain h1 h2 m1 m2 where
    c: "zoneText off = (if off \<le> - 60 then CHR ''-'' else CHR ''+'') # h1 # h2 # CHR '':'' # [m1, m2]"
      "isDigit h1" "isDigit h2" "digitsVal [h1, h2] = hr"
      "isDigit m1" "isDigit m2" "digitsVal [m1, m2] = mm"
    unfolding hr_def mm_def by blast
  have "nat \<bar>off\<bar> < 25 * 60 * 60" using assms by simp
  then have "hr < 25"
    unfolding hr_def by (simp add: less_mult_imp_div_less)
  then have hh: "\<not> 24 < hr" by simp
  have "mm < 60" unfolding mm_def by simp
  then have m9: "\<not> 60 < mm" by simp
  have g: "getnum [h1, h2] True = Some (hr, [])" "getnum [m1, m2] True = Some (mm, [])"
    using getnum_two [of h1 h2 "[]" True] getnum_two [of m1 m2 "[]" True] c(2-7) by simp_all
  have zr: "zoneRead off =
      (if off \<le> - 60 then - int ((hr * 60 + mm) * 60) else int ((hr * 60 + mm) * 60))"
    unfolding hr_def mm_def by (rule zoneRead_minutes)
  show ?thesis
    unfolding c(1) zr parseColonTZ_def
    by (simp add: g hh m9)
qed

lemma zoneText_zoneRead:
  assumes "off = 0 \<or> 60 \<le> \<bar>off\<bar>"
  shows "zoneText (zoneRead off) = zoneText off"
proof (cases "off = 0")
  case True
  then show ?thesis by (simp add: zoneRead_def)
next
  case False
  define z where "z = nat \<bar>off\<bar> div 60"
  have z: "1 \<le> z" using assms False by (simp add: z_def Suc_le_eq div_greater_zero_iff)
  have r: "zoneRead off = (if off < 0 then - int (z * 60) else int (z * 60))"
    by (simp add: zoneRead_def z_def)
  have nz: "zoneRead off \<noteq> 0" using z by (simp add: r)
  have a1: "nat \<bar>zoneRead off\<bar> = z * 60" by (auto simp: r)
  have a2: "zoneRead off < 0 \<longleftrightarrow> off < 0" using z by (auto simp: r)
  have q: "quo (zoneRead off) 60 = quo off 60"
    by (simp add: quo_60 a1 a2 z_def)
  show ?thesis
    using nz False by (simp add: zoneText_def q)
qed

lemma Format_zoneText:
  "Format t RFC3339 =
     appendInt (year t) 4 @ ''-'' @ appendInt (month t) 2 @ ''-'' @ appendInt (day t) 2 @ ''T'' @
     appendInt (hour t) 2 @ '':'' @ appendInt (minute t) 2 @ '':'' @ appendInt (second t) 2 @
     zoneText (zoneOffset t)"
  by (simp add: appendFormatRFC3339_def zoneText_def)

lemma zoneText_first: "zoneText off \<noteq> [] \<and> zoneText off ! 0 \<in> {CHR ''Z'', CHR ''+'', CHR ''-''}"
  by (simp add: zoneText_def Let_def)


lemma Format_chars:
  assumes "civil t" "0 \<le> year t" "year t \<le> 9999"
  obtains y1 y2 y3 y4 m1 m2 d1 d2 h1 h2 i1 i2 s1 s2 where
    "Format t RFC3339 =
      y1 # y2 # y3 # y4 # CHR ''-'' # m1 # m2 # CHR ''-'' # d1 # d2 # CHR ''T'' #
      h1 # h2 # CHR '':'' # i1 # i2 # CHR '':'' # s1 # s2 # zoneText (zoneOffset t)"
    "isDigit y1 \<and> isDigit y2 \<and> isDigit y3 \<and> isDigit y4 \<and> digitsVal [y1, y2, y3, y4] = nat (year t)"
    "isDigit m1 \<and> isDigit m2 \<and> digitsVal [m1, m2] = nat (month t)"
    "isDigit d1 \<and> isDigit d2 \<and> digitsVal [d1, d2] = nat (day t)"
    "isDigit h1 \<and> isDigit h2 \<and> digitsVal [h1, h2] = nat (hour t)"
    "isDigit i1 \<and> isDigit i2 \<and> digitsVal [i1, i2] = nat (minute t)"
    "isDigit s1 \<and> isDigit s2 \<and> digitsVal [s1, s2] = nat (second t)"
proof -
  from assms(1) have r: "1 \<le> month t" "month t \<le> 12"
    "1 \<le> day t" "day t \<le> int (daysIn (nat (month t)) (nat (year t)))"
    "0 \<le> hour t" "hour t \<le> 23" "0 \<le> minute t" "minute t \<le> 59"
    "0 \<le> second t" "second t \<le> 59"
    by (simp_all add: civil_def)
  have "daysIn (nat (month t)) (nat (year t)) \<le> 31" by (simp add: daysIn_def)
  with r(4) have d31: "day t \<le> 99" by linarith
  obtain y1 y2 y3 y4 where Y: "appendInt (year t) 4 = [y1, y2, y3, y4]"
      "isDigit y1" "isDigit y2" "isDigit y3" "isDigit y4"
      "digitsVal [y1, y2, y3, y4] = nat (year t)"
    using appendInt_four [OF assms(2,3)] by blast
  obtain m1 m2 where Mo: "appendInt (month t) 2 = [m1, m2]" "isDigit m1" "isDigit m2"
      "digitsVal [m1, m2] = nat (month t)"
    using appendInt_two [of "month t"] r by auto
  obtain d1 d2 where D: "appendInt (day t) 2 = [d1, d2]" "isDigit d1" "isDigit d2"
      "digitsVal [d1, d2] = nat (day t)"
    using appendInt_two [of "day t"] r d31 by auto
  obtain h1 h2 where H: "appendInt (hour t) 2 = [h1, h2]" "isDigit h1" "isDigit h2"
      "digitsVal [h1, h2] = nat (hour t)"
    using appendInt_two [of "hour t"] r by auto
  obtain i1 i2 where Mi: "appendInt (minute t) 2 = [i1, i2]" "isDigit i1" "isDigit i2"
      "digitsVal [i1, i2] = nat (minute t)"
    using appendInt_two [of "minute t"] r by auto
  obtain s1 s2 where S: "appendInt (second t) 2 = [s1, s2]" "isDigit s1" "isDigit s2"
      "digitsVal [s1, s2] = nat (second t)"
    using appendInt_two [of "second t"] r by auto
  have f: "Format t RFC3339 =
      y1 # y2 # y3 # y4 # CHR ''-'' # m1 # m2 # CHR ''-'' # d1 # d2 # CHR ''T'' #
      h1 # h2 # CHR '':'' # i1 # i2 # CHR '':'' # s1 # s2 # zoneText (zoneOffset t)"
    unfolding Format_zoneText Y(1) Mo(1) D(1) H(1) Mi(1) S(1) by simp
  show ?thesis
    by (rule that [OF f]) (simp_all only: Y Mo D H Mi S simp_thms)
qed

lemma parseRFC3339_Format_zone:
  assumes "civil t" "0 \<le> year t" "year t \<le> 9999"
  shows "parseRFC3339 (Format t RFC3339) =
     map_option (\<lambda>off. t\<lparr>nanosecond := 0, zoneOffset := off\<rparr>) (parseZone (zoneText (zoneOffset t)))"
proof -
  from assms(1) have r: "1 \<le> month t" "month t \<le> 12"
    "1 \<le> day t" "day t \<le> int (daysIn (nat (month t)) (nat (year t)))"
    "0 \<le> hour t" "hour t \<le> 23" "0 \<le> minute t" "minute t \<le> 59"
    "0 \<le> second t" "second t \<le> 59"
    by (simp_all add: civil_def)
  define Z where "Z = zoneText (zoneOffset t)"
  from Format_chars [OF assms] obtain y1 y2 y3 y4 m1 m2 d1 d2 h1 h2 i1 i2 s1 s2 where
    f: "Format t RFC3339 =
      y1 # y2 # y3 # y4 # CHR ''-'' # m1 # m2 # CHR ''-'' # d1 # d2 # CHR ''T'' #
      h1 # h2 # CHR '':'' # i1 # i2 # CHR '':'' # s1 # s2 # Z"
    and c: "isDigit y1 \<and> isDigit y2 \<and> isDigit y3 \<and> isDigit y4 \<and> digitsVal [y1, y2, y3, y4] = nat (year t)"
    "isDigit m1 \<and> isDigit m2 \<and> digitsVal [m1, m2] = nat (month t)"
    "isDigit d1 \<and> isDigit d2 \<and> digitsVal [d1, d2] = nat (day t)"
    "isDigit h1 \<and> isDigit h2 \<and> digitsVal [h1, h2] = nat (hour t)"
    "isDigit i1 \<and> isDigit i2 \<and> digitsVal [i1, i2] = nat (minute t)"
    "isDigit s1 \<and> isDigit s2 \<and> digitsVal [s1, s2] = nat (second t)"
    unfolding Z_def by blast
  have Z: "Z \<noteq> []" "Z ! 0 \<noteq> CHR ''.''"
    using zoneText_first [of "zoneOffset t"] by (auto simp: Z_def)
  have p: "parseUint [y1, y2, y3, y4] 0 9999 = Some (nat (year t))"
    "parseUint [m1, m2] 1 12 = Some (nat (month t))"
    "parseUint [d1, d2] 1 (daysIn (nat (month t)) (nat (year t))) = Some (nat (day t))"
    "parseUint [h1, h2] 0 23 = Some (nat (hour t))"
    "parseUint [i1, i2] 0 59 = Some (nat (minute t))"
    "parseUint [s1, s2] 0 59 = Some (nat (second t))"
    using c r assms(2,3) by (simp_all add: parseUint_def Let_def)
  show ?thesis
    unfolding f parseRFC3339_def Z_def [symmetric]
    using p Z r assms(2,3)
    by (cases "parseZone Z") (simp_all add: Let_def)
qed

lemma Parse_RFC3339_Format:
  assumes "civil t" "0 \<le> year t" "year t \<le> 9999" "\<bar>zoneOffset t\<bar> < 90000"
  shows "Parse_RFC3339 (Format t RFC3339) = Some (readBack t)"
proof -
  from assms(1) have r: "1 \<le> month t" "month t \<le> 12"
    "1 \<le> day t" "day t \<le> int (daysIn (nat (month t)) (nat (year t)))"
    "0 \<le> hour t" "hour t \<le> 23" "0 \<le> minute t" "minute t \<le> 59"
    "0 \<le> second t" "second t \<le> 59"
    by (simp_all add: civil_def)
  define Z where "Z = zoneText (zoneOffset t)"
  from Format_chars [OF assms(1-3)] obtain y1 y2 y3 y4 m1 m2 d1 d2 h1 h2 i1 i2 s1 s2 where
    f: "Format t RFC3339 =
      y1 # y2 # y3 # y4 # CHR ''-'' # m1 # m2 # CHR ''-'' # d1 # d2 # CHR ''T'' #
      h1 # h2 # CHR '':'' # i1 # i2 # CHR '':'' # s1 # s2 # Z"
    and c: "isDigit y1 \<and> isDigit y2 \<and> isDigit y3 \<and> isDigit y4 \<and> digitsVal [y1, y2, y3, y4] = nat (year t)"
    "isDigit m1 \<and> isDigit m2 \<and> digitsVal [m1, m2] = nat (month t)"
    "isDigit d1 \<and> isDigit d2 \<and> digitsVal [d1, d2] = nat (day t)"
    "isDigit h1 \<and> isDigit h2 \<and> digitsVal [h1, h2] = nat (hour t)"
    "isDigit i1 \<and> isDigit i2 \<and> digitsVal [i1, i2] = nat (minute t)"
    "isDigit s1 \<and> isDigit s2 \<and> digitsVal [s1, s2] = nat (second t)"
    unfolding Z_def by blast
  have Z: "Z \<noteq> []" "Z ! 0 \<noteq> CHR ''.''" "Z ! 0 \<noteq> CHR '',''"
    using zoneText_first [of "zoneOffset t"] by (auto simp: Z_def)
  have fr: "secondsFraction Z = (0, Z)"
    using Z by (simp add: secondsFraction_def)
  have tz: "parseColonTZ Z = Some (zoneRead (zoneOffset t), [])"
    unfolding Z_def by (rule parseColonTZ_zoneText [OF assms(4)])
  have g: "\<And>rest. getnum (m1 # m2 # rest) True = Some (nat (month t), rest)"
    "\<And>rest. getnum (d1 # d2 # rest) True = Some (nat (day t), rest)"
    "\<And>rest. getnum (h1 # h2 # rest) False = Some (nat (hour t), rest)"
    "\<And>rest. getnum (i1 # i2 # rest) True = Some (nat (minute t), rest)"
    "\<And>rest. getnum (s1 # s2 # rest) True = Some (nat (second t), rest)"
    using c by (simp_all add: getnum_two)
  have n: "nat (month t) \<noteq> 0" "\<not> 12 < nat (month t)" "\<not> 24 \<le> nat (hour t)"
    "\<not> 60 \<le> nat (minute t)" "\<not> 60 \<le> nat (second t)" "\<not> nat (day t) < 1"
    using r by simp_all
  have nd: "\<not> daysIn (nat (month t)) (nat (year t)) < nat (day t)"
    using r(3,4) by linarith
  show ?thesis
    unfolding f Parse_RFC3339_def
    using c(1) r assms(2,3)
    by (simp add: g fr tz readBack_def n nd)
qed

lemma parseStrictRFC3339_Format:
  assumes "civil t" "0 \<le> year t" "year t \<le> 9999" "\<bar>zoneOffset t\<bar> < 90000"
  shows "parseStrictRFC3339 (Format t RFC3339) = Inr (readBack t)"
proof (cases "\<bar>zoneOffset t\<bar> < 86400")
  case True
  show ?thesis
    unfolding parseStrictRFC3339_def parseRFC3339_Format_zone [OF assms(1-3)]
      parseZone_zoneText [OF True]
    by (simp add: readBack_def)
next
  case False
  then have "86400 \<le> \<bar>zoneOffset t\<bar>" "\<bar>zoneOffset t\<bar> < 360000"
    using assms(4) by simp_all
  from parseZone_zoneText_day [OF this] show ?thesis
    unfolding parseStrictRFC3339_def parseRFC3339_Format_zone [OF assms(1-3)]
      Parse_RFC3339_Format [OF assms]
    by simp
qed

lemma Format_readBack:
  assumes "zoneOffset t = 0 \<or> 60 \<le> \<bar>zoneOffset t\<bar>"
  shows "Format (readBack t) RFC3339 = Format t RFC3339"
  using zoneText_zoneRead [OF assms]
  unfolding Format_zoneText by (simp add: readBack_def)

lemma Time_UnmarshalJSON_Format:
  assumes "civil t" "0 \<le> year t" "year t \<le> 9999" "\<bar>zoneOffset t\<bar> < 90000"
  shows "Time_UnmarshalJSON r ([CHR 0x22] @ Format t RFC3339 @ [CHR 0x22]) = Inr (readBack t)"
  using parseStrictRFC3339_Format [OF assms]
  by (simp add: Time_UnmarshalJSON_def nth_append del: Format.simps)


section \<open>The formatted timestamp is the RFC 3339 text\<close>

lemma digit_decimalDigit: "d < 10 \<Longrightarrow> digit d = decimalDigit d"
proof -
  assume "d < 10"
  then have "(of_char (digit d) :: nat) = 48 + d" by (rule of_char_digit)
  then have "char_of (of_char (digit d) :: nat) = decimalDigit d"
    by (simp only: decimalDigit_def)
  then show ?thesis by simp
qed

lemma decimalDigit_0: "decimalDigit 0 = CHR ''0''"
  using digit_decimalDigit [of 0] by (simp add: digit_def)

lemma fixedDigits_0: "fixedDigits k 0 = replicate k (CHR ''0'')"
  by (induction k) (simp_all add: decimalDigit_0 replicate_append_same)

lemma pad_utoa:
  "n < 10 ^ k \<Longrightarrow> 0 < k \<Longrightarrow>
   replicate (k - length (utoa n)) (CHR ''0'') @ utoa n = fixedDigits k n"
proof (induction k arbitrary: n)
  case 0
  then show ?case by simp
next
  case (Suc k)
  show ?case
  proof (cases "n < 10")
    case True
    then have u: "utoa n = [decimalDigit n]"
      by (subst utoa.simps) (simp add: digit_decimalDigit)
    from True have "n div 10 = 0" "n mod 10 = n" by simp_all
    then show ?thesis
      by (simp add: u fixedDigits_0)
  next
    case False
    define q where "q = n div 10"
    define r where "r = n mod 10"
    have "r < 10" unfolding r_def by simp
    then have u: "utoa n = utoa q @ [decimalDigit r]"
      using False unfolding q_def r_def by (subst utoa.simps) (simp add: digit_decimalDigit)
    have k: "0 < k"
      using False Suc.prems(1) by (cases k) simp_all
    have "q < 10 ^ k"
      using Suc.prems(1) unfolding q_def by (simp add: less_mult_imp_div_less mult.commute)
    from Suc.IH [OF this k] have "replicate (k - length (utoa q)) (CHR ''0'') @ utoa q = fixedDigits k q" .
    then show ?thesis
      by (simp add: u q_def [symmetric] r_def [symmetric])
  qed
qed

lemma appendInt_fixedDigits:
  assumes "0 \<le> x" "nat x < 10 ^ k" "0 < k"
  shows "appendInt x k = fixedDigits k (nat x)"
proof -
  have "appendInt x k = replicate (k - length (utoa (nat x))) (CHR ''0'') @ utoa (nat x)"
    using assms(1) by (simp add: appendInt_def Let_def)
  then show ?thesis
    using pad_utoa [OF assms(2,3)] by simp
qed

lemma zoneText_rfc3339Offset:
  assumes "\<bar>off\<bar> < 360000"
  shows "zoneText off = rfc3339Offset off"
proof (cases "off = 0")
  case True
  then show ?thesis by (simp add: zoneText_def rfc3339Offset_def)
next
  case False
  define z where "z = nat \<bar>off\<bar> div 60"
  define hr where "hr = z div 60"
  define mm where "mm = z mod 60"
  have "nat \<bar>off\<bar> < 6000 * 60" using assms by simp
  then have zl: "z < 100 * 60" unfolding z_def by (simp add: less_mult_imp_div_less)
  have z0: "0 < z \<longleftrightarrow> off \<le> - 60 \<or> 60 \<le> off"
    unfolding z_def by (auto simp: div_greater_zero_iff)
  have q: "quo off 60 = (if off < 0 then - int z else int z)"
    unfolding z_def by (rule quo_60)
  have az: "\<bar>quo off 60\<bar> = int z" "quo off 60 < 0 \<longleftrightarrow> off \<le> - 60"
    using z0 unfolding q by auto
  have "hr < 100" using zl unfolding hr_def by (simp add: less_mult_imp_div_less)
  then have hh: "nat (int hr) < 10 ^ 2" by simp
  have "mm < 60" unfolding mm_def by simp
  then have m9: "nat (int mm) < 10 ^ 2" by simp
  have H: "appendInt (int hr) 2 = fixedDigits 2 hr"
    using appendInt_fixedDigits [OF _ hh] by simp
  have M: "appendInt (int mm) 2 = fixedDigits 2 mm"
    using appendInt_fixedDigits [OF _ m9] by simp
  have d: "int z div 60 = int hr" "int z mod 60 = int mm"
    by (simp_all add: hr_def mm_def zdiv_int zmod_int)
  have h3600: "nat \<bar>off\<bar> div 3600 = hr"
    unfolding hr_def z_def by (simp add: div_mult2_eq)
  have zt: "zoneText off = (if off \<le> - 60 then ''-'' else ''+'') @
      fixedDigits 2 hr @ '':'' @ fixedDigits 2 mm"
    using False by (simp add: zoneText_def Let_def az d H M del: fixedDigits.simps)
  show ?thesis
    unfolding zt rfc3339Offset_def h3600
    using False by (simp add: mm_def z_def del: fixedDigits.simps)
qed

lemma Format_rfc3339Text:
  assumes "civil t" "0 \<le> year t" "year t \<le> 9999" "\<bar>zoneOffset t\<bar> < 360000"
  shows "Format t RFC3339 = rfc3339Text t"
proof -
  from assms(1) have r: "1 \<le> month t" "month t \<le> 12"
    "1 \<le> day t" "day t \<le> int (daysIn (nat (month t)) (nat (year t)))"
    "0 \<le> hour t" "hour t \<le> 23" "0 \<le> minute t" "minute t \<le> 59"
    "0 \<le> second t" "second t \<le> 59"
    by (simp_all add: civil_def)
  have "daysIn (nat (month t)) (nat (year t)) \<le> 31" by (simp add: daysIn_def)
  with r(4) have d31: "day t \<le> 99" by linarith
  have Y: "appendInt (year t) 4 = fixedDigits 4 (nat (year t))"
    using assms(2,3) by (intro appendInt_fixedDigits) simp_all
  have Mo: "appendInt (month t) 2 = fixedDigits 2 (nat (month t))"
    using r by (intro appendInt_fixedDigits) simp_all
  have D: "appendInt (day t) 2 = fixedDigits 2 (nat (day t))"
    using r d31 by (intro appendInt_fixedDigits) simp_all
  have H: "appendInt (hour t) 2 = fixedDigits 2 (nat (hour t))"
    using r by (intro appendInt_fixedDigits) simp_all
  have Mi: "appendInt (minute t) 2 = fixedDigits 2 (nat (minute t))"
    using r by (intro appendInt_fixedDigits) simp_all
  have S: "appendInt (second t) 2 = fixedDigits 2 (nat (second t))"
    using r by (intro appendInt_fixedDigits) simp_all
  show ?thesis
    unfolding Format_zoneText rfc3339Text_def Y Mo D H Mi S
      zoneText_rfc3339Offset [OF assms(4)] ..
qed

section \<open>Decoding the document written by MarshalJSON\<close>

lemma ValidString_coerceUTF8: "ValidString s \<Longrightarrow> coerceUTF8 s = s"
proof (induction s rule: length_induct)
  case (1 s)
  show ?case
  proof (cases s)
    case Nil
    then show ?thesis by (simp add: coerceUTF8.simps(1))
  next
    case (Cons b bs)
    obtain c n where d: "DecodeRuneInString (take 4 (b # bs)) = (c, n)" by fastforce
    from "1.prems" Cons d have v: "\<not> (c = RuneError \<and> n = 1)"
      and rest: "ValidString (drop n (b # bs))"
      by (simp_all add: Let_def)
    have "0 < n" using d DecodeRuneInString_Cons_pos [of b "take 3 bs"] by simp
    then have "length (drop n (b # bs)) < length s" using Cons by simp
    with "1.IH" rest have "coerceUTF8 (drop n (b # bs)) = drop n (b # bs)" by blast
    with coerce_ok [OF d v] Cons show ?thesis by simp
  qed
qed

lemma decodeMembers_append:
  "decodeMembers c (xs @ ys) =
     (case decodeMembers c xs of Inl e \<Rightarrow> Inl e | Inr c' \<Rightarrow> decodeMembers c' ys)"
  by (induction xs arbitrary: c) (auto split: sum.splits)

lemma MarshalJSON_cong:
  assumes "ProcessCredential.AccessKeyID c' = ProcessCredential.AccessKeyID c"
    "ProcessCredential.SecretAccessKey c' = ProcessCredential.SecretAccessKey c"
    "ProcessCredential.SessionToken c' = ProcessCredential.SessionToken c"
    "Version c' = Version c" "expirationText c' = expirationText c"
  shows "MarshalJSON c' = MarshalJSON c"
  using assms by (simp add: MarshalJSON_json_Marshal json_Marshal_def typeFields_eq)

lemma Unmarshal_MarshalJSON:
  assumes doc: "MarshalJSON c = Inr doc"
    and e: "ProcessCredential.Expiration c = Some t"
    and t: "civil t" "0 \<le> year t" "year t \<le> 9999" "\<bar>zoneOffset t\<bar> < 90000"
    and v: "ValidString (ProcessCredential.AccessKeyID c)"
      "ValidString (ProcessCredential.SecretAccessKey c)"
      "ValidString (ProcessCredential.SessionToken c)"
  shows "Unmarshal doc = Inr (c\<lparr>ProcessCredential.Expiration := Some (readBack t)\<rparr>)"
proof -
  have rd: "readObject doc = Some (members c)"
    using MarshalJSON_document [of c] doc by auto
  have ex: "expirationText c = Format t RFC3339" using e by (simp add: expirationText_def)
  have tm: "Time_UnmarshalJSON zeroTime (CHR 0x22 # Format t RFC3339 @ [CHR 0x22]) =
      Inr (readBack t)"
    using Time_UnmarshalJSON_Format [OF t] by simp
  have lo: "- (2 ^ 63) \<le> sint (Version c)" and hi: "sint (Version c) < 2 ^ 63"
    using sint_ge [of "Version c"] sint_lt [of "Version c"] by simp_all
  have "decodeMembers \<lparr>AccessKeyID = [], SecretAccessKey = [], SessionToken = [],
            Expiration = None, Version = 0\<rparr> (members c) =
        Inr \<lparr>AccessKeyID = ProcessCredential.AccessKeyID c,
          SecretAccessKey = ProcessCredential.SecretAccessKey c,
          SessionToken = ProcessCredential.SessionToken c,
          Expiration = Some (readBack t), Version = Version c\<rparr>"
    using lo hi
    by (simp add: members_def setField_def ex tm v ValidString_coerceUTF8 del: Format.simps)
  then show ?thesis
    using e by (simp add: Unmarshal_def rd)
qed

lemma Decode_FF: "DecodeRuneInString (take 4 [CHR 0xFF]) = (RuneError, 1)"
  by (simp add: Decode_bad)

lemma Decode_FFFD: "DecodeRuneInString (take 4 [CHR 0xEF, CHR 0xBF, CHR 0xBD]) = (0xFFFD, 3)"
  by (simp add: Decode_3 cont_def cont2_def)

lemma asb_FF: "appendStringBody [CHR 0xFF] = CHR 0x5C # ''ufffd''"
  using asb_bad [OF _ Decode_FF] by (simp add: appendStringBody.simps(1))

lemma asb_FFFD: "appendStringBody [CHR 0xEF, CHR 0xBF, CHR 0xBD] = [CHR 0xEF, CHR 0xBF, CHR 0xBD]"
  using asb_raw [OF _ Decode_FFFD] by (simp add: appendStringBody.simps(1) RuneError_def)

lemma coerce_FF: "coerceUTF8 [CHR 0xFF] = [CHR 0xEF, CHR 0xBF, CHR 0xBD]"
  using coerce_bad [OF Decode_FF] by (simp add: coerceUTF8.simps(1))

lemma ValidString_ascii:
  "(of_char b :: nat) < 0x80 \<Longrightarrow> ValidString (b # bs) = ValidString bs"
  by (simp add: Decode_ascii RuneError_def)

declare ValidString.simps(2) [simp del]

lemma ValidString_plain: "plain s \<Longrightarrow> ValidString s"
  by (induction s) (simp_all add: plain_Cons ValidString_ascii htmlSafeSet_ascii)

lemma civil_2023: "civil time2023"
  by (simp add: civil_def time2023_def daysIn_def)

lemma Format_2023: "Format time2023 RFC3339 = ''2023-06-01T00:00:00Z''"
  by (simp add: time2023_def appendFormatRFC3339_def appendInt_def utoa.simps digit_def)

lemma readBack_2023: "readBack time2023 = time2023"
  by (simp add: readBack_def time2023_def zoneRead_def)

section \<open>Properties of the variants\<close>

text \<open>
  C7. For every value of each of the four variants (EnvVarCredential, CredsFileCredential,
  ProcessCredential, NoopCredential) the capability check IsCredential returns true,
  the no-op sentinel included; so does every call through the interface.
\<close>

theorem IsCredential_always_true:
  "EnvVarCredential_IsCredential e = True \<and>
   CredsFileCredential_IsCredential f = True \<and>
   ProcessCredential_IsCredential p = True \<and>
   NoopCredential_IsCredential n = True \<and>
   IsCredential (EnvVar e) = True \<and> IsCredential (CredsFile f) = True \<and>
   IsCredential (Process p) = True \<and> IsCredential (Noop n) = True \<and>
   IsCredential c = True"
proof -
  have "IsCredential c" for c
    by (cases c)
      (simp_all add: EnvVarCredential_IsCredential_def CredsFileCredential_IsCredential_def
        ProcessCredential_IsCredential_def NoopCredential_IsCredential_def)
  then show ?thesis
    by (simp add: EnvVarCredential_IsCredential_def CredsFileCredential_IsCredential_def
        ProcessCredential_IsCredential_def NoopCredential_IsCredential_def)
qed

text \<open>
  C8. Before any call to SetProfile, Profile returns the empty string; after
  SetProfile "x" it returns "x"; a later SetProfile "y" overwrites the name, whatever the
  names are (there is no validation).
\<close>

theorem Profile_last_write_wins:
  "Profile (newCredsFileCredential a s t) = [] \<and>
   Profile (SetProfile c x) = x \<and>
   Profile (SetProfile (SetProfile c x) y) = y"
  by (simp add: Profile_def SetProfile_def newCredsFileCredential_def)

text \<open>
  C10. SetProfile changes only the private profile field: AccessKeyID, SecretAccessKey and
  SessionToken of the credential are what they were before the call.
\<close>

theorem SetProfile_frame:
  "CredsFileCredential.AccessKeyID (SetProfile c p) = CredsFileCredential.AccessKeyID c \<and>
   CredsFileCredential.SecretAccessKey (SetProfile c p) = CredsFileCredential.SecretAccessKey c \<and>
   CredsFileCredential.SessionToken (SetProfile c p) = CredsFileCredential.SessionToken c \<and>
   SetProfile c p = c\<lparr>profile := p\<rparr>"
  by (simp add: SetProfile_def)

section \<open>Properties of the process-credential document\<close>

text \<open>
  The encoder does have a failing path: a timestamp in the year 10000 cannot be marshalled.
  The field that holds the timestamp is among the fields scanned, and is not among the
  fields encoded.
\<close>

lemma encodeValue_year_10000:
  "encodeValue (VTimePtr (Some \<lparr>year = 10000, month = 1, day = 1, hour = 0, minute = 0,
     second = 0, nanosecond = 0, zoneOffset = 0\<rparr>)) =
   Inl (MarshalerError ''Time.MarshalJSON: year outside of range [0,9999]'')"
  by (simp add: encodeValue_def Time_MarshalJSON_def appendStrictRFC3339_def
      appendFormatRFC3339_def appendInt_def appendNano_def utoa.simps digit_def)

lemma time_field_hidden:
  "VTimePtr p \<in> fieldValue ` set (scanFields \<lparr>Alias = c\<lparr>ProcessCredential.Expiration := p\<rparr>,
     Expiration = e\<rparr>)"
  "VTimePtr p \<notin> fieldValue ` set (typeFields v)"
  by (simp_all add: scanFields_def typeFields_eq)

text \<open>
  C9. MarshalJSON never returns an error: for every ProcessCredential the result is a
  document.  The encoder can fail (on a timestamp that has its own marshalling method and
  a year beyond 9999), but the only field of that kind is hidden by the string field of
  the same name, so no field that is encoded can fail.
\<close>

theorem MarshalJSON_never_fails:
  "\<exists>doc. MarshalJSON c = Inr doc"
  using MarshalJSON_document [of c] by blast

text \<open>
  C2. The claim is that the credential with empty AccessKeyID, SecretAccessKey and
  SessionToken, Version 0 and no Expiration is written as the two bytes \<^verbatim>\<open>{}\<close>.
  The code writes the Expiration member with an empty string instead.
\<close>

theorem MarshalJSON_zero_credential:
  \<open>MarshalJSON \<lparr>AccessKeyID = [], SecretAccessKey = [], SessionToken = [],
      Expiration = None, Version = 0\<rparr> = Inr ''{"Expiration":""}''\<close>
  by (simp add: MarshalJSON_def json_Marshal_def typeFields_eq isEmptyValue_def
      encodeValue_def nameEscHTML_def HTMLEscapeByte_def appendString_def
      appendStringBody.simps(1))

text \<open>
  C1. The claim is that a credential with no Expiration is written without an Expiration
  key.  The code writes, for every such credential, a document whose only Expiration
  member is the empty string \<^verbatim>\<open>""\<close>.
\<close>

theorem MarshalJSON_nil_Expiration:
  \<open>\<exists>doc ms. MarshalJSON (c\<lparr>ProcessCredential.Expiration := None\<rparr>) = Inr doc \<and>
     readObject doc = Some ms \<and>
     filter (\<lambda>m. fst m = ''Expiration'') ms = [(''Expiration'', ''""'', JString [])]\<close>
proof -
  let ?c = "c\<lparr>ProcessCredential.Expiration := None\<rparr>"
  obtain doc where "MarshalJSON ?c = Inr doc" "readObject doc = Some (members ?c)"
    using MarshalJSON_document [of ?c] by blast
  moreover have
    "filter (\<lambda>m. fst m = ''Expiration'') (members ?c) = [(''Expiration'', [CHR 0x22, CHR 0x22], JString [])]"
    by (simp add: members_def expirationText_def)
  ultimately show ?thesis by auto
qed

text \<open>
  The documents written for a timestamp in the year 10000, in the year before the year 0,
  and at an offset of 24 hours from UTC.
\<close>

lemma Format_out_of_range:
  "Format (time2023\<lparr>year := 10000\<rparr>) RFC3339 = ''10000-06-01T00:00:00Z''"
  "Format (time2023\<lparr>year := - 1\<rparr>) RFC3339 = ''-0001-06-01T00:00:00Z''"
  "Format (time2023\<lparr>zoneOffset := 86400\<rparr>) RFC3339 = ''2023-06-01T00:00:00+24:00''"
  "Format (time2023\<lparr>zoneOffset := 90000\<rparr>) RFC3339 = ''2023-06-01T00:00:00+25:00''"
proof -
  have r3: "replicate 3 (CHR ''0'') = ''000''" by (simp add: numeral_3_eq_3)
  note ev = time2023_def appendFormatRFC3339_def appendInt_def utoa.simps digit_def quo_def r3
  show "Format (time2023\<lparr>year := 10000\<rparr>) RFC3339 = ''10000-06-01T00:00:00Z''"
    by (simp add: ev)
  show "Format (time2023\<lparr>year := - 1\<rparr>) RFC3339 = ''-0001-06-01T00:00:00Z''"
    by (simp add: ev)
  show "Format (time2023\<lparr>zoneOffset := 86400\<rparr>) RFC3339 = ''2023-06-01T00:00:00+24:00''"
    by (simp add: ev)
  show "Format (time2023\<lparr>zoneOffset := 90000\<rparr>) RFC3339 = ''2023-06-01T00:00:00+25:00''"
    by (simp add: ev)
qed

lemma MarshalJSON_out_of_range:
  \<open>MarshalJSON \<lparr>AccessKeyID = [], SecretAccessKey = [], SessionToken = [],
       Expiration = Some (time2023\<lparr>year := 10000\<rparr>), Version = 0\<rparr> =
     Inr ''{"Expiration":"10000-06-01T00:00:00Z"}''\<close>
  \<open>MarshalJSON \<lparr>AccessKeyID = [], SecretAccessKey = [], SessionToken = [],
       Expiration = Some (time2023\<lparr>year := - 1\<rparr>), Version = 0\<rparr> =
     Inr ''{"Expiration":"-0001-06-01T00:00:00Z"}''\<close>
  \<open>MarshalJSON \<lparr>AccessKeyID = [], SecretAccessKey = [], SessionToken = [],
       Expiration = Some (time2023\<lparr>zoneOffset := 86400\<rparr>), Version = 0\<rparr> =
     Inr ''{"Expiration":"2023-06-01T00:00:00+24:00"}''\<close>
  \<open>MarshalJSON \<lparr>AccessKeyID = [], SecretAccessKey = [], SessionToken = [],
       Expiration = Some (time2023\<lparr>zoneOffset := 90000\<rparr>), Version = 0\<rparr> =
     Inr ''{"Expiration":"2023-06-01T00:00:00+25:00"}''\<close>
proof -
  have p: "appendStringBody ''10000-06-01T00:00:00Z'' = ''10000-06-01T00:00:00Z''"
    "appendStringBody ''-0001-06-01T00:00:00Z'' = ''-0001-06-01T00:00:00Z''"
    "appendStringBody ''2023-06-01T00:00:00+24:00'' = ''2023-06-01T00:00:00+24:00''"
    "appendStringBody ''2023-06-01T00:00:00+25:00'' = ''2023-06-01T00:00:00+25:00''"
    by (rule plain_appendStringBody, simp add: plain_def htmlSafeSet_def)+
  note ev = MarshalJSON_def json_Marshal_def typeFields_eq isEmptyValue_def
      encodeValue_def nameEscHTML_def HTMLEscapeByte_def appendString_def Format_out_of_range
      appendStringBody.simps(1)
  show \<open>MarshalJSON \<lparr>AccessKeyID = [], SecretAccessKey = [], SessionToken = [],
       Expiration = Some (time2023\<lparr>year := 10000\<rparr>), Version = 0\<rparr> =
     Inr ''{"Expiration":"10000-06-01T00:00:00Z"}''\<close>
    by (simp add: ev p del: Format.simps)
  show \<open>MarshalJSON \<lparr>AccessKeyID = [], SecretAccessKey = [], SessionToken = [],
       Expiration = Some (time2023\<lparr>year := - 1\<rparr>), Version = 0\<rparr> =
     Inr ''{"Expiration":"-0001-06-01T00:00:00Z"}''\<close>
    by (simp add: ev p del: Format.simps)
  show \<open>MarshalJSON \<lparr>AccessKeyID = [], SecretAccessKey = [], SessionToken = [],
       Expiration = Some (time2023\<lparr>zoneOffset := 86400\<rparr>), Version = 0\<rparr> =
     Inr ''{"Expiration":"2023-06-01T00:00:00+24:00"}''\<close>
    by (simp add: ev p del: Format.simps)
  show \<open>MarshalJSON \<lparr>AccessKeyID = [], SecretAccessKey = [], SessionToken = [],
       Expiration = Some (time2023\<lparr>zoneOffset := 90000\<rparr>), Version = 0\<rparr> =
     Inr ''{"Expiration":"2023-06-01T00:00:00+25:00"}''\<close>
    by (simp add: ev p del: Format.simps)
qed

text \<open>
  C3. The claim: for every ProcessCredential whose Expiration is set, the Expiration member
  is the timestamp as an RFC 3339 string to the second.  As amended: this holds for every
  timestamp with a year from 0 to 9999 and a zone offset of less than 24 hours; \<open>civil t\<close>
  holds of the readings of every timestamp.  The document then ends with the Expiration
  member, its only one, whose value is, verbatim between quotes, the text that RFC 3339
  gives the timestamp: the date and the clock in digits of fixed width, then \<^verbatim>\<open>Z\<close>, or
  the sign, hours and minutes of the offset.  The parser of the RFC 3339 grammar reads that
  text as the date, the clock and the offset in whole minutes of the timestamp, without
  the nanoseconds.  For 2023-06-01T00:00:00Z the document contains
  \<^verbatim>\<open>"Expiration":"2023-06-01T00:00:00Z"\<close>.
\<close>

theorem MarshalJSON_Expiration_RFC3339:
  assumes "civil t" "0 \<le> year t" "year t \<le> 9999" "\<bar>zoneOffset t\<bar> < 86400"
  shows \<open>\<exists>doc pre ms. MarshalJSON (c\<lparr>ProcessCredential.Expiration := Some t\<rparr>) = Inr doc \<and>
     doc = pre @ ''"Expiration":"'' @ rfc3339Text t @ ''"}'' \<and>
     readObject doc = Some ms \<and>
     filter (\<lambda>m. fst m = ''Expiration'') ms =
       [(''Expiration'', ''"'' @ rfc3339Text t @ ''"'', JString (rfc3339Text t))] \<and>
     parseRFC3339 (rfc3339Text t) =
       Some (t\<lparr>nanosecond := 0, zoneOffset := zoneRead (zoneOffset t)\<rparr>) \<and>
     (\<exists>doc' pre'.
        MarshalJSON (c\<lparr>ProcessCredential.Expiration :=
          Some \<lparr>year = 2023, month = 6, day = 1, hour = 0, minute = 0, second = 0,
            nanosecond = n, zoneOffset = 0\<rparr>\<rparr>) = Inr doc' \<and>
        doc' = pre' @ ''"Expiration":"2023-06-01T00:00:00Z"}'')\<close>
proof -
  have ends: "\<exists>doc pre. MarshalJSON (c\<lparr>ProcessCredential.Expiration := Some u\<rparr>) = Inr doc \<and>
      doc = pre @ [CHR 0x22] @ ''Expiration'' @ [CHR 0x22] @ '':'' @ [CHR 0x22] @
            Format u RFC3339 @ [CHR 0x22] @ ''}'' \<and>
      readObject doc = Some (members (c\<lparr>ProcessCredential.Expiration := Some u\<rparr>))" for u
  proof -
    let ?c = "c\<lparr>ProcessCredential.Expiration := Some u\<rparr>"
    have e: "expirationText ?c = Format u RFC3339" by (simp add: expirationText_def)
    obtain doc where doc: "MarshalJSON ?c = Inr doc" "readObject doc = Some (members ?c)"
      using MarshalJSON_document [of ?c] by blast
    from MarshalJSON_ends [OF doc(1)] doc show ?thesis
      unfolding e by blast
  qed
  let ?c = "c\<lparr>ProcessCredential.Expiration := Some t\<rparr>"
  have "\<bar>zoneOffset t\<bar> < 360000" using assms(4) by simp
  from Format_rfc3339Text [OF assms(1-3) this]
  have ft: "Format t RFC3339 = rfc3339Text t" .
  have e: "expirationText ?c = rfc3339Text t" by (simp add: expirationText_def ft del: Format.simps)
  from ends [of t] obtain doc pre where
    doc: "MarshalJSON ?c = Inr doc" "readObject doc = Some (members ?c)"
      "doc = pre @ [CHR 0x22] @ ''Expiration'' @ [CHR 0x22] @ '':'' @ [CHR 0x22] @
            rfc3339Text t @ [CHR 0x22] @ ''}''"
    unfolding ft by blast
  have f: "filter (\<lambda>m. fst m = ''Expiration'') (members ?c) =
        [(''Expiration'', [CHR 0x22] @ rfc3339Text t @ [CHR 0x22], JString (rfc3339Text t))]"
    by (simp add: members_def e)
  have p: "parseRFC3339 (rfc3339Text t) =
       Some (t\<lparr>nanosecond := 0, zoneOffset := zoneRead (zoneOffset t)\<rparr>)"
    using parseRFC3339_Format_zone [OF assms(1-3)] parseZone_zoneText [OF assms(4)]
    unfolding ft by simp
  have x: "Format \<lparr>year = 2023, month = 6, day = 1, hour = 0, minute = 0, second = 0,
       nanosecond = n, zoneOffset = 0\<rparr> RFC3339 = ''2023-06-01T00:00:00Z''"
    by (simp add: appendFormatRFC3339_def appendInt_def utoa.simps digit_def)
  from ends [of "\<lparr>year = 2023, month = 6, day = 1, hour = 0, minute = 0, second = 0,
       nanosecond = n, zoneOffset = 0\<rparr>"] obtain doc' pre' where
    doc': "MarshalJSON (c\<lparr>ProcessCredential.Expiration :=
          Some \<lparr>year = 2023, month = 6, day = 1, hour = 0, minute = 0, second = 0,
            nanosecond = n, zoneOffset = 0\<rparr>\<rparr>) = Inr doc'"
      "doc' = pre' @ [CHR 0x22] @ ''Expiration'' @ [CHR 0x22] @ '':'' @ [CHR 0x22] @
            ''2023-06-01T00:00:00Z'' @ [CHR 0x22] @ ''}''"
    unfolding x by blast
  from doc f p doc' show ?thesis by auto
qed

theorem MarshalJSON_Expiration_RFC3339_witness:
  \<open>\<exists>doc pre. MarshalJSON \<lparr>AccessKeyID = ''AKIA'', SecretAccessKey = ''secret'',
       SessionToken = ''token'',
       Expiration = Some \<lparr>year = 2024, month = 2, day = 29, hour = 15, minute = 4, second = 5,
         nanosecond = 999, zoneOffset = - 28830\<rparr>, Version = 1\<rparr> = Inr doc \<and>
     doc = pre @ ''"Expiration":"2024-02-29T15:04:05-08:00"}'' \<and>
     parseRFC3339 ''2024-02-29T15:04:05-08:00'' =
       Some \<lparr>year = 2024, month = 2, day = 29, hour = 15, minute = 4, second = 5,
         nanosecond = 0, zoneOffset = - 28800\<rparr>\<close>
proof -
  let ?t = "\<lparr>year = 2024, month = 2, day = 29, hour = 15, minute = 4, second = 5,
         nanosecond = 999, zoneOffset = - 28830\<rparr>"
  let ?c = "\<lparr>AccessKeyID = ''AKIA'', SecretAccessKey = ''secret'', SessionToken = ''token'',
       Expiration = None, Version = 1\<rparr>"
  have c: "civil ?t" by (simp add: civil_def daysIn_def isLeap_def)
  have y: "0 \<le> year ?t" "year ?t \<le> 9999" "\<bar>zoneOffset ?t\<bar> < 86400" by simp_all
  have "Format ?t RFC3339 = ''2024-02-29T15:04:05-08:00''"
    by (simp add: appendFormatRFC3339_def appendInt_def utoa.simps digit_def quo_def)
  then have r: "rfc3339Text ?t = ''2024-02-29T15:04:05-08:00''"
    using Format_rfc3339Text [OF c] by simp
  have z: "zoneRead (- 28830) = - 28800" by (simp add: zoneRead_def)
  have "\<exists>doc pre. MarshalJSON (?c\<lparr>ProcessCredential.Expiration := Some ?t\<rparr>) = Inr doc \<and>
      doc = pre @ [CHR 0x22] @ ''Expiration'' @ [CHR 0x22] @ '':'' @ [CHR 0x22] @
            rfc3339Text ?t @ [CHR 0x22] @ ''}'' \<and>
      parseRFC3339 (rfc3339Text ?t) =
        Some (?t\<lparr>nanosecond := 0, zoneOffset := zoneRead (zoneOffset ?t)\<rparr>)"
    using MarshalJSON_Expiration_RFC3339 [OF c y, where c = ?c and n = 0] by auto
  then show ?thesis
    unfolding r by (simp add: z)
qed

text \<open>
  Timestamps whose text is not of RFC 3339: in the year 10000 the year is written with
  five digits, in the year before the year 0 with a minus sign, and an offset of 24 hours
  is written \<^verbatim>\<open>+24:00\<close>, where the grammar has the hours from 00 to 23.  The parser of
  the grammar rejects the three texts.
\<close>

theorem MarshalJSON_Expiration_counterexample:
  \<open>MarshalJSON \<lparr>AccessKeyID = [], SecretAccessKey = [], SessionToken = [],
       Expiration = Some (time2023\<lparr>year := 10000\<rparr>), Version = 0\<rparr> =
     Inr ''{"Expiration":"10000-06-01T00:00:00Z"}'' \<and>
   parseRFC3339 ''10000-06-01T00:00:00Z'' = None \<and>
   MarshalJSON \<lparr>AccessKeyID = [], SecretAccessKey = [], SessionToken = [],
       Expiration = Some (time2023\<lparr>year := - 1\<rparr>), Version = 0\<rparr> =
     Inr ''{"Expiration":"-0001-06-01T00:00:00Z"}'' \<and>
   parseRFC3339 ''-0001-06-01T00:00:00Z'' = None \<and>
   MarshalJSON \<lparr>AccessKeyID = [], SecretAccessKey = [], SessionToken = [],
       Expiration = Some (time2023\<lparr>zoneOffset := 86400\<rparr>), Version = 0\<rparr> =
     Inr ''{"Expiration":"2023-06-01T00:00:00+24:00"}'' \<and>
   parseRFC3339 ''2023-06-01T00:00:00+24:00'' = None\<close>
proof -
  note tp = parseRFC3339_def parseUint_def isDigit_def digitsVal_def daysIn_def isLeap_def
    parseZone_def
  have "parseRFC3339 ''10000-06-01T00:00:00Z'' = None"
    "parseRFC3339 ''-0001-06-01T00:00:00Z'' = None"
    "parseRFC3339 ''2023-06-01T00:00:00+24:00'' = None"
    by (simp_all add: tp)
  with MarshalJSON_out_of_range(1-3) show ?thesis by simp
qed

text \<open>
  C4. Whenever the Expiration key is present in the document, its value is a JSON string,
  never null and never a nested object: every document has exactly one Expiration member,
  and it is a string literal (the formatted timestamp, or the empty string when no
  expiration is set).
\<close>

theorem Expiration_is_a_JSON_string:
  \<open>\<exists>doc ms s. MarshalJSON c = Inr doc \<and> readObject doc = Some ms \<and>
     filter (\<lambda>m. fst m = ''Expiration'') ms = [(''Expiration'', ''"'' @ s @ ''"'', JString s)] \<and>
     s = (case ProcessCredential.Expiration c of None \<Rightarrow> [] | Some t \<Rightarrow> Format t RFC3339)\<close>
proof -
  obtain doc where doc: "MarshalJSON c = Inr doc" "readObject doc = Some (members c)"
    using MarshalJSON_document [of c] by blast
  have "filter (\<lambda>m. fst m = ''Expiration'') (members c) =
        [(''Expiration'', [CHR 0x22] @ expirationText c @ [CHR 0x22], JString (expirationText c))]"
    by (simp add: members_def)
  with doc show ?thesis
    by (auto simp: expirationText_def)
qed

text \<open>
  C5. The keys AccessKeyId, SecretAccessKey, SessionToken and Version are written only
  when the value is a non-empty string or a non-zero integer: the Version key is left out
  when Version is 0, and Version 1 is written as \<^verbatim>\<open>"Version":1\<close>.  A string that is
  written is read back as the string itself, with every byte that is not part of a valid
  UTF-8 encoding replaced by U+FFFD.
\<close>

theorem omit_if_empty:
  \<open>\<exists>doc ms. MarshalJSON c = Inr doc \<and> readObject doc = Some ms \<and>
     filter (\<lambda>m. fst m = ''AccessKeyId'') ms =
       (if ProcessCredential.AccessKeyID c = [] then []
        else [(''AccessKeyId'', appendString (ProcessCredential.AccessKeyID c),
               JString (coerceUTF8 (ProcessCredential.AccessKeyID c)))]) \<and>
     filter (\<lambda>m. fst m = ''SecretAccessKey'') ms =
       (if ProcessCredential.SecretAccessKey c = [] then []
        else [(''SecretAccessKey'', appendString (ProcessCredential.SecretAccessKey c),
               JString (coerceUTF8 (ProcessCredential.SecretAccessKey c)))]) \<and>
     filter (\<lambda>m. fst m = ''SessionToken'') ms =
       (if ProcessCredential.SessionToken c = [] then []
        else [(''SessionToken'', appendString (ProcessCredential.SessionToken c),
               JString (coerceUTF8 (ProcessCredential.SessionToken c)))]) \<and>
     filter (\<lambda>m. fst m = ''Version'') ms =
       (if Version c = 0 then []
        else [(''Version'', FormatInt (sint (Version c)), JNumber (sint (Version c)))]) \<and>
     FormatInt (sint (1 :: 64 word)) = ''1''\<close>
proof -
  obtain doc where doc: "MarshalJSON c = Inr doc" "readObject doc = Some (members c)"
    using MarshalJSON_document [of c] by blast
  have one: "FormatInt (sint (1 :: 64 word)) = ''1''"
    by (simp add: FormatInt_def utoa.simps digit_def)
  have "filter (\<lambda>m. fst m = ''AccessKeyId'') (members c) =
       (if ProcessCredential.AccessKeyID c = [] then []
        else [(''AccessKeyId'', appendString (ProcessCredential.AccessKeyID c),
               JString (coerceUTF8 (ProcessCredential.AccessKeyID c)))])"
    and "filter (\<lambda>m. fst m = ''SecretAccessKey'') (members c) =
       (if ProcessCredential.SecretAccessKey c = [] then []
        else [(''SecretAccessKey'', appendString (ProcessCredential.SecretAccessKey c),
               JString (coerceUTF8 (ProcessCredential.SecretAccessKey c)))])"
    and "filter (\<lambda>m. fst m = ''SessionToken'') (members c) =
       (if ProcessCredential.SessionToken c = [] then []
        else [(''SessionToken'', appendString (ProcessCredential.SessionToken c),
               JString (coerceUTF8 (ProcessCredential.SessionToken c)))])"
    and "filter (\<lambda>m. fst m = ''Version'') (members c) =
       (if Version c = 0 then []
        else [(''Version'', FormatInt (sint (Version c)), JNumber (sint (Version c)))])"
    by (simp_all add: members_def)
  with doc one show ?thesis by blast
qed

text \<open>
  C6. The claim: decoding a document produced by MarshalJSON back into a ProcessCredential
  and encoding the result again gives the same bytes.  As amended: this holds for every
  credential whose Expiration is set to a timestamp with a year from 0 to 9999 and a zone
  offset that is zero, or at least a minute and less than 25 hours, and whose three strings
  are valid UTF-8; \<open>civil t\<close> holds of the readings of every timestamp.
\<close>

theorem decode_encode_identical:
  assumes "ProcessCredential.Expiration c = Some t" "civil t"
    "0 \<le> year t" "year t \<le> 9999"
    "zoneOffset t = 0 \<or> 60 \<le> \<bar>zoneOffset t\<bar>" "\<bar>zoneOffset t\<bar> < 90000"
    "ValidString (ProcessCredential.AccessKeyID c)"
    "ValidString (ProcessCredential.SecretAccessKey c)"
    "ValidString (ProcessCredential.SessionToken c)"
  shows "\<exists>doc c'. MarshalJSON c = Inr doc \<and> Unmarshal doc = Inr c' \<and> MarshalJSON c' = Inr doc"
proof -
  obtain doc where doc: "MarshalJSON c = Inr doc"
    using MarshalJSON_document [of c] by blast
  let ?c' = "c\<lparr>ProcessCredential.Expiration := Some (readBack t)\<rparr>"
  have u: "Unmarshal doc = Inr ?c'"
    using Unmarshal_MarshalJSON [OF doc assms(1-4,6-9)] .
  have "expirationText ?c' = expirationText c"
    using assms(1) Format_readBack [OF assms(5)] by (simp add: expirationText_def del: Format.simps)
  then have "MarshalJSON ?c' = MarshalJSON c"
    by (intro MarshalJSON_cong) simp_all
  with doc u show ?thesis by auto
qed

theorem decode_encode_identical_witness:
  \<open>(\<exists>doc c'. MarshalJSON \<lparr>AccessKeyID = ''AKIA'', SecretAccessKey = ''secret'',
       SessionToken = ''token'', Expiration = Some time2023, Version = 1\<rparr> = Inr doc \<and>
     Unmarshal doc = Inr c' \<and> MarshalJSON c' = Inr doc) \<and>
   (\<exists>doc c'. MarshalJSON \<lparr>AccessKeyID = ''AKIA'', SecretAccessKey = ''secret'',
       SessionToken = ''token'', Expiration = Some (time2023\<lparr>zoneOffset := - 88200\<rparr>),
       Version = 1\<rparr> = Inr doc \<and>
     Unmarshal doc = Inr c' \<and> MarshalJSON c' = Inr doc)\<close>
proof -
  have v: "ValidString ''AKIA''" "ValidString ''secret''" "ValidString ''token''"
    by (rule ValidString_plain, simp add: plain_def htmlSafeSet_def)+
  have y: "0 \<le> year time2023" "year time2023 \<le> 9999" "zoneOffset time2023 = 0"
    by (simp_all add: time2023_def)
  have c: "civil (time2023\<lparr>zoneOffset := - 88200\<rparr>)"
    using civil_2023 by (simp add: civil_def)
  show ?thesis
    using decode_encode_identical [of "\<lparr>AccessKeyID = ''AKIA'', SecretAccessKey = ''secret'',
       SessionToken = ''token'', Expiration = Some time2023, Version = 1\<rparr>" time2023]
      decode_encode_identical [of "\<lparr>AccessKeyID = ''AKIA'', SecretAccessKey = ''secret'',
       SessionToken = ''token'', Expiration = Some (time2023\<lparr>zoneOffset := - 88200\<rparr>),
       Version = 1\<rparr>" "time2023\<lparr>zoneOffset := - 88200\<rparr>"]
      civil_2023 c v y
    by simp
qed

text \<open>
  Documents that do not survive: a byte that is not UTF-8 is written as the escape of U+FFFD
  and comes back as the three bytes of U+FFFD, which are then written unescaped; a zone
  offset of thirty seconds is written as \<^verbatim>\<open>+00:00\<close> and comes back as UTC, written
  \<^verbatim>\<open>Z\<close>; the text written for the year 10000 and the offset \<^verbatim>\<open>+25:00\<close> written for
  an offset of 25 hours are rejected by the decoder; and the empty Expiration string
  written for a credential without expiration is not a timestamp, so decoding fails.
  An offset of 24 hours, which the first parser of the decoder rejects, is accepted
  by the second.
\<close>

lemma readObject_MarshalJSON: "MarshalJSON c = Inr doc \<Longrightarrow> readObject doc = Some (members c)"
  using MarshalJSON_document [of c] by auto

lemma Unmarshal_only_Expiration:
  assumes "MarshalJSON \<lparr>AccessKeyID = [], SecretAccessKey = [], SessionToken = [],
       Expiration = Some t, Version = 0\<rparr> = Inr doc"
  shows "Unmarshal doc =
     (case Time_UnmarshalJSON zeroTime ([CHR 0x22] @ Format t RFC3339 @ [CHR 0x22]) of
        Inl e \<Rightarrow> Inl e
      | Inr t' \<Rightarrow> Inr \<lparr>AccessKeyID = [], SecretAccessKey = [], SessionToken = [],
          Expiration = Some t', Version = 0\<rparr>)"
  unfolding Unmarshal_def readObject_MarshalJSON [OF assms]
  by (simp add: members_def expirationText_def setField_def del: Format.simps split: sum.splits)

lemma Unmarshal_offset_24h:
  \<open>Unmarshal ''{"Expiration":"2023-06-01T00:00:00+24:00"}'' =
     Inr \<lparr>AccessKeyID = [], SecretAccessKey = [], SessionToken = [],
       Expiration = Some (time2023\<lparr>zoneOffset := 86400\<rparr>), Version = 0\<rparr>\<close>
  unfolding Unmarshal_only_Expiration [OF MarshalJSON_out_of_range(3)] Format_out_of_range
  by (simp add: Time_UnmarshalJSON_def parseStrictRFC3339_def parseRFC3339_def parseUint_def
      isDigit_def digitsVal_def daysIn_def isLeap_def parseZone_def Parse_RFC3339_def
      getnum_def isDigitAt_def parseColonTZ_def secondsFraction_def time2023_def)

theorem decode_encode_counterexample:
  \<open>MarshalJSON \<lparr>AccessKeyID = [CHR 0xFF], SecretAccessKey = [], SessionToken = [],
       Expiration = Some time2023, Version = 0\<rparr> =
     Inr (''{"AccessKeyId":"'' @ [CHR 0x5C] @ ''ufffd","Expiration":"2023-06-01T00:00:00Z"}'') \<and>
   Unmarshal (''{"AccessKeyId":"'' @ [CHR 0x5C] @ ''ufffd","Expiration":"2023-06-01T00:00:00Z"}'') =
     Inr \<lparr>AccessKeyID = [CHR 0xEF, CHR 0xBF, CHR 0xBD], SecretAccessKey = [], SessionToken = [],
       Expiration = Some time2023, Version = 0\<rparr> \<and>
   MarshalJSON \<lparr>AccessKeyID = [CHR 0xEF, CHR 0xBF, CHR 0xBD], SecretAccessKey = [],
       SessionToken = [], Expiration = Some time2023, Version = 0\<rparr> =
     Inr (''{"AccessKeyId":"'' @ [CHR 0xEF, CHR 0xBF, CHR 0xBD] @
          ''","Expiration":"2023-06-01T00:00:00Z"}'') \<and>
   MarshalJSON \<lparr>AccessKeyID = [], SecretAccessKey = [], SessionToken = [],
       Expiration = Some (time2023\<lparr>zoneOffset := 30\<rparr>), Version = 0\<rparr> =
     Inr ''{"Expiration":"2023-06-01T00:00:00+00:00"}'' \<and>
   Unmarshal ''{"Expiration":"2023-06-01T00:00:00+00:00"}'' =
     Inr \<lparr>AccessKeyID = [], SecretAccessKey = [], SessionToken = [],
       Expiration = Some time2023, Version = 0\<rparr> \<and>
   MarshalJSON \<lparr>AccessKeyID = [], SecretAccessKey = [], SessionToken = [],
       Expiration = Some time2023, Version = 0\<rparr> =
     Inr ''{"Expiration":"2023-06-01T00:00:00Z"}'' \<and>
   MarshalJSON \<lparr>AccessKeyID = [], SecretAccessKey = [], SessionToken = [],
       Expiration = Some (time2023\<lparr>year := 10000\<rparr>), Version = 0\<rparr> =
     Inr ''{"Expiration":"10000-06-01T00:00:00Z"}'' \<and>
   Unmarshal ''{"Expiration":"10000-06-01T00:00:00Z"}'' = Inl TimeParseError \<and>
   MarshalJSON \<lparr>AccessKeyID = [], SecretAccessKey = [], SessionToken = [],
       Expiration = Some (time2023\<lparr>year := - 1\<rparr>), Version = 0\<rparr> =
     Inr ''{"Expiration":"-0001-06-01T00:00:00Z"}'' \<and>
   Unmarshal ''{"Expiration":"-0001-06-01T00:00:00Z"}'' = Inl TimeParseError \<and>
   MarshalJSON \<lparr>AccessKeyID = [], SecretAccessKey = [], SessionToken = [],
       Expiration = Some (time2023\<lparr>zoneOffset := 90000\<rparr>), Version = 0\<rparr> =
     Inr ''{"Expiration":"2023-06-01T00:00:00+25:00"}'' \<and>
   Unmarshal ''{"Expiration":"2023-06-01T00:00:00+25:00"}'' = Inl TimeParseError \<and>
   MarshalJSON \<lparr>AccessKeyID = [], SecretAccessKey = [], SessionToken = [],
       Expiration = None, Version = 0\<rparr> = Inr ''{"Expiration":""}'' \<and>
   Unmarshal ''{"Expiration":""}'' = Inl TimeParseError \<and>
   ''{"AccessKeyId":"'' @ [CHR 0x5C] @ ''ufffd","Expiration":"2023-06-01T00:00:00Z"}'' \<noteq>
     ''{"AccessKeyId":"'' @ [CHR 0xEF, CHR 0xBF, CHR 0xBD] @
     ''","Expiration":"2023-06-01T00:00:00Z"}'' \<and>
   ''{"Expiration":"2023-06-01T00:00:00+00:00"}'' \<noteq> ''{"Expiration":"2023-06-01T00:00:00Z"}''\<close>
proof -
  let ?z = "\<lparr>AccessKeyID = [], SecretAccessKey = [], SessionToken = [],
            Expiration = None, Version = 0\<rparr>"
  note ev = MarshalJSON_def json_Marshal_def typeFields_eq isEmptyValue_def
      encodeValue_def nameEscHTML_def HTMLEscapeByte_def appendString_def Format_2023
  have p: "appendStringBody ''2023-06-01T00:00:00Z'' = ''2023-06-01T00:00:00Z''"
    "appendStringBody ''2023-06-01T00:00:00+00:00'' = ''2023-06-01T00:00:00+00:00''"
    by (rule plain_appendStringBody, simp add: plain_def htmlSafeSet_def)+
  have f30: "Format (time2023\<lparr>zoneOffset := 30\<rparr>) RFC3339 = ''2023-06-01T00:00:00+00:00''"
    by (simp add: time2023_def appendFormatRFC3339_def appendInt_def utoa.simps digit_def quo_def)
  have m1: "MarshalJSON (?z\<lparr>ProcessCredential.AccessKeyID := [CHR 0xFF],
        ProcessCredential.Expiration := Some time2023\<rparr>) =
     Inr (''{\"AccessKeyId\":\"'' @ [CHR 0x5C] @ ''ufffd\",\"Expiration\":\"2023-06-01T00:00:00Z\"}'')"
    by (simp add: ev asb_FF p appendStringBody.simps(1) del: Format.simps)
  have m2: "MarshalJSON (?z\<lparr>ProcessCredential.AccessKeyID := [CHR 0xEF, CHR 0xBF, CHR 0xBD],
        ProcessCredential.Expiration := Some time2023\<rparr>) =
     Inr (''{\"AccessKeyId\":\"'' @ [CHR 0xEF, CHR 0xBF, CHR 0xBD] @
          ''\",\"Expiration\":\"2023-06-01T00:00:00Z\"}'')"
    by (simp add: ev asb_FFFD p appendStringBody.simps(1) del: Format.simps)
  have m3: "MarshalJSON (?z\<lparr>ProcessCredential.Expiration := Some (time2023\<lparr>zoneOffset := 30\<rparr>)\<rparr>) =
     Inr ''{\"Expiration\":\"2023-06-01T00:00:00+00:00\"}''"
    by (simp add: ev f30 p appendStringBody.simps(1) del: Format.simps)
  have m4: "MarshalJSON (?z\<lparr>ProcessCredential.Expiration := Some time2023\<rparr>) =
     Inr ''{\"Expiration\":\"2023-06-01T00:00:00Z\"}''"
    by (simp add: ev p appendStringBody.simps(1) del: Format.simps)
  have m5: "MarshalJSON ?z = Inr ''{\"Expiration\":\"\"}''"
    by (simp add: ev appendStringBody.simps(1))
  note tp = Time_UnmarshalJSON_def parseStrictRFC3339_def parseRFC3339_def parseUint_def
     isDigit_def digitsVal_def daysIn_def isLeap_def parseZone_def Parse_RFC3339_def
     getnum_def isDigitAt_def parseColonTZ_def secondsFraction_def
  have t1: "Time_UnmarshalJSON zeroTime ''\"2023-06-01T00:00:00Z\"'' = Inr time2023"
    by (simp add: tp time2023_def)
  have t3: "Time_UnmarshalJSON zeroTime ''\"2023-06-01T00:00:00+00:00\"'' = Inr time2023"
    by (simp add: tp time2023_def)
  have t5: "Time_UnmarshalJSON zeroTime ''\"\"'' = Inl TimeParseError"
    by (simp add: tp)
  have t6: "Time_UnmarshalJSON zeroTime ''\"10000-06-01T00:00:00Z\"'' = Inl TimeParseError"
    by (simp add: tp)
  have t7: "Time_UnmarshalJSON zeroTime ''\"-0001-06-01T00:00:00Z\"'' = Inl TimeParseError"
    by (simp add: tp)
  have t8: "Time_UnmarshalJSON zeroTime ''\"2023-06-01T00:00:00+25:00\"'' = Inl TimeParseError"
    by (simp add: tp)
  have u1: "Unmarshal (''{\"AccessKeyId\":\"'' @ [CHR 0x5C] @
                ''ufffd\",\"Expiration\":\"2023-06-01T00:00:00Z\"}'') =
     Inr (?z\<lparr>ProcessCredential.AccessKeyID := [CHR 0xEF, CHR 0xBF, CHR 0xBD],
        ProcessCredential.Expiration := Some time2023\<rparr>)"
    unfolding Unmarshal_def readObject_MarshalJSON [OF m1]
    by (simp add: members_def expirationText_def Format_2023 coerce_FF setField_def t1
        del: Format.simps)
  have u3: "Unmarshal ''{\"Expiration\":\"2023-06-01T00:00:00+00:00\"}'' =
     Inr (?z\<lparr>ProcessCredential.Expiration := Some time2023\<rparr>)"
    unfolding Unmarshal_def readObject_MarshalJSON [OF m3]
    by (simp add: members_def expirationText_def f30 setField_def t3 del: Format.simps)
  have u5: "Unmarshal ''{\"Expiration\":\"\"}'' = Inl TimeParseError"
    unfolding Unmarshal_def readObject_MarshalJSON [OF m5]
    by (simp add: members_def expirationText_def setField_def t5)
  have u6: "Unmarshal ''{\"Expiration\":\"10000-06-01T00:00:00Z\"}'' = Inl TimeParseError"
    unfolding Unmarshal_only_Expiration [OF MarshalJSON_out_of_range(1)] Format_out_of_range
    using t6 by simp
  have u7: "Unmarshal ''{\"Expiration\":\"-0001-06-01T00:00:00Z\"}'' = Inl TimeParseError"
    unfolding Unmarshal_only_Expiration [OF MarshalJSON_out_of_range(2)] Format_out_of_range
    using t7 by simp
  have u8: "Unmarshal ''{\"Expiration\":\"2023-06-01T00:00:00+25:00\"}'' = Inl TimeParseError"
    unfolding Unmarshal_only_Expiration [OF MarshalJSON_out_of_range(4)] Format_out_of_range
    using t8 by simp
  from m1 u1 m2 m3 u3 m4 m5 u5 u6 u7 u8 MarshalJSON_out_of_range(1,2,4) show ?thesis by simp
qed

end
